theory Spec2Isabelle
  imports Main "HOL-Library.Word"
begin

unbundle bit_operations_syntax

section \<open>Data model (include/movie.h)\<close>

text \<open>
  A \<open>Movie\<close> is the C struct of movie.h. The two \<open>char *\<close> fields are nullable, so they
  are \<open>string option\<close> with \<open>None\<close> for \<open>NULL\<close>; the pointed-to text is kept by value,
  since every string stored in a record is a private \<open>strdup\<close> copy. \<open>year\<close> is a C
  \<open>int\<close>; \<open>rating\<close> is a C \<open>float\<close>, kept as its 32 IEEE-754 bits.
\<close>

type_synonym addr = nat
type_synonym cfloat = "32 word"

record Movie =
  title :: "string option"
  director :: "string option"
  year :: int
  rating :: cfloat

datatype MovieError = MOVIE_SUCCESS | MOVIE_ERROR_NULL_POINTER | MOVIE_ERROR_MEMORY_ALLOCATION

text \<open>
  Records live in the C heap and the catalog array holds pointers to them: a slot is
  \<open>None\<close> (\<open>NULL\<close>) or \<open>Some p\<close>, and the heap maps live addresses to their contents.
\<close>

type_synonym heap = "addr \<rightharpoonup> Movie"
type_synonym slot = "addr option"

text \<open>What the C standard leaves undefined is a fault of the model, never a value.\<close>

datatype fault = Null_Deref | Dangling | Out_Of_Bounds | Signed_Overflow

definition INT_MAX :: int where
  "INT_MAX = 2147483647"

definition INT_MIN :: int where
  "INT_MIN = - 2147483648"

text \<open>A pop-up shown by \<open>show_popup(title, message)\<close> is logged as the pair it displays.\<close>

type_synonym popup = "string \<times> string"

section \<open>The C library, as far as the program uses it\<close>

text \<open>
  Allocation is the environment's choice. One call of \<open>create_movie\<close> asks for one
  \<open>malloc\<close> and two \<open>strdup\<close>s; \<open>alloc_env\<close> holds the three answers. A successful
  \<open>malloc\<close> yields an address together with the indeterminate contents of the block.
\<close>

record alloc_env =
  malloc_movie :: "(addr \<times> Movie) option"
  strdup_title :: bool
  strdup_director :: bool

definition strdup :: "bool \<Rightarrow> string \<Rightarrow> string option" where
  "strdup ok s = (if ok then Some s else None)"

section \<open>movie.c\<close>

text \<open>
  \<open>create_movie\<close>, lines 43-76. The result is the new heap, the returned pointer and the
  pop-ups shown. Only \<open>title\<close>, \<open>director\<close> and \<open>year\<close> are assigned; \<open>rating\<close> keeps
  whatever the allocated block held.
\<close>

definition create_movie ::
  "alloc_env \<Rightarrow> heap \<Rightarrow> string option \<Rightarrow> string option \<Rightarrow> int \<Rightarrow> heap \<times> addr option \<times> popup list"
where
  "create_movie env h title_arg director_arg year_arg =
     (if title_arg = None \<or> director_arg = None \<or> year_arg \<le> 1800 then (h, None, [])
      else case malloc_movie env of
        None \<Rightarrow> (h, None, [(''Warning'', ''New Movie Allocation Failed.\<newline>'')])
      | Some (p, junk) \<Rightarrow>
         (case strdup (strdup_title env) (the title_arg) of
            None \<Rightarrow> (h, None, [(''Warning'', ''Memory Allocation for Title Failed.\<newline>'')])
          | Some t \<Rightarrow>
             (case strdup (strdup_director env) (the director_arg) of
                None \<Rightarrow> (h, None, [(''Warning'', ''Memory Allocation for Director Failed.\<newline>'')])
              | Some d \<Rightarrow>
                 (h(p \<mapsto> junk\<lparr>title := Some t, director := Some d, year := year_arg\<rparr>),
                  Some p, []))))"

text \<open>When every allocation of a call succeeds.\<close>

definition allocs_ok :: "alloc_env \<Rightarrow> bool" where
  "allocs_ok env = (malloc_movie env \<noteq> None \<and> strdup_title env \<and> strdup_director env)"

text \<open>
  A \<open>const char *\<close> argument of \<open>update_movie\<close>, seen from the record being updated:
  \<open>NULL\<close>, text held apart from that record, or a pointer into one of the two strings
  the record owns (its \<open>title\<close> or its \<open>director\<close> buffer).
\<close>

datatype str_arg = Arg_Null | Arg_Apart string | Arg_Own

text \<open>
  \<open>strdup\<close> of such an argument once the record's two strings have been freed: an
  argument that points into them is read through a dangling pointer.
\<close>

definition strdup_after_free :: "bool \<Rightarrow> str_arg \<Rightarrow> fault + string option" where
  "strdup_after_free ok a =
     (case a of
        Arg_Null \<Rightarrow> Inl Null_Deref
      | Arg_Apart txt \<Rightarrow> Inr (strdup ok txt)
      | Arg_Own \<Rightarrow> Inl Dangling)"

text \<open>
  \<open>update_movie\<close>, lines 80-95. The record is reached through its pointer. Its two
  strings are freed first (lines 87-88), then the arguments are copied (lines 90-91) and
  the two \<open>strdup\<close> results are stored unchecked.
\<close>

definition update_movie ::
  "bool \<Rightarrow> bool \<Rightarrow> heap \<Rightarrow> addr option \<Rightarrow> str_arg \<Rightarrow> str_arg \<Rightarrow> int
     \<Rightarrow> fault + (heap \<times> MovieError)"
where
  "update_movie dup_t dup_d h movie new_title new_director new_year =
     (if movie = None \<or> new_title = Arg_Null \<or> new_director = Arg_Null \<or> new_year \<le> 0
      then Inr (h, MOVIE_ERROR_NULL_POINTER)
      else case h (the movie) of
        None \<Rightarrow> Inl Dangling
      | Some m \<Rightarrow>
         (case strdup_after_free dup_t new_title of
            Inl f \<Rightarrow> Inl f
          | Inr t \<Rightarrow>
             (case strdup_after_free dup_d new_director of
                Inl f \<Rightarrow> Inl f
              | Inr d \<Rightarrow>
                  Inr (h(the movie \<mapsto> m\<lparr>title := t, director := d, year := new_year\<rparr>),
                       MOVIE_SUCCESS))))"

subsection \<open>printf conversions\<close>

definition digit_char :: "int \<Rightarrow> char" where
  "digit_char n = char_of (48 + n mod 10)"

text \<open>The decimal digits of a number that is not negative.\<close>

function printf_u :: "int \<Rightarrow> string" where
  "printf_u n = (if n < 10 then [digit_char n] else printf_u (n div 10) @ [digit_char (n mod 10)])"
  by pat_completeness auto
termination
  by (relation "measure (\<lambda>n. nat n)") auto

declare printf_u.simps [simp del]

text \<open>\<open>%d\<close>.\<close>

definition printf_d :: "int \<Rightarrow> string" where
  "printf_d i = (if i < 0 then CHR ''-'' # printf_u (- i) else printf_u i)"

text \<open>
  \<open>%.1f\<close> of a \<open>float\<close> (promoted to \<open>double\<close> without loss). The bits are decoded into
  sign, biased exponent and fraction; a finite value is the rational \<open>num / den\<close>, rounded
  to tenths, to nearest with ties to even; infinities and NaNs print as words.
\<close>

definition float_sign :: "cfloat \<Rightarrow> bool" where
  "float_sign w = bit w 31"

definition float_exp :: "cfloat \<Rightarrow> nat" where
  "float_exp w = unat (drop_bit 23 w AND 0xFF)"

definition float_frac :: "cfloat \<Rightarrow> int" where
  "float_frac w = uint (w AND 0x7FFFFF)"

definition float_finite :: "cfloat \<Rightarrow> bool" where
  "float_finite w = (float_exp w \<noteq> 255)"

definition round_half_even :: "int \<Rightarrow> int \<Rightarrow> int" where
  "round_half_even num den =
     (let q = num div den; r = num mod den
      in if 2 * r > den \<or> (2 * r = den \<and> odd q) then q + 1 else q)"

definition float_tenths :: "cfloat \<Rightarrow> int" where
  "float_tenths w =
     (let e = float_exp w; f = float_frac w
      in if e = 0 then round_half_even (10 * f) (2 ^ 149)
         else if e \<ge> 150 then 10 * ((2 ^ 23 + f) * 2 ^ (e - 150))
         else round_half_even (10 * (2 ^ 23 + f)) (2 ^ (150 - e)))"

definition printf_1f :: "cfloat \<Rightarrow> string" where
  "printf_1f w =
     (if float_sign w then [CHR ''-''] else []) @
     (if float_exp w = 255 then (if float_frac w = 0 then ''inf'' else ''nan'')
      else printf_u (float_tenths w div 10) @ [CHR ''.'', digit_char (float_tenths w mod 10)])"

text \<open>\<open>display_movie\<close>, lines 98-106: what is written to standard output.\<close>

definition display_movie :: "heap \<Rightarrow> addr option \<Rightarrow> fault + string" where
  "display_movie h movie =
     (case movie of
        None \<Rightarrow> Inr ''Attempted to Display a NULL movie.\<newline>''
      | Some p \<Rightarrow>
         (case h p of
            None \<Rightarrow> Inl Dangling
          | Some m \<Rightarrow>
             (case (title m, director m) of
                (Some t, Some d) \<Rightarrow>
                  Inr (''Title: '' @ t @ '',Director: '' @ d @ '',Year: '' @ printf_d (year m) @ ''\<newline>'')
              | _ \<Rightarrow> Inl Null_Deref)))"

subsection \<open>The catalog: an array of record pointers, a count and a capacity\<close>

record state =
  heap :: heap
  movies :: "slot list option"
  movie_count :: int
  movie_capacity :: int
  popups :: "popup list"
  stderr :: "string list"

definition show_popup :: "string \<Rightarrow> string \<Rightarrow> state \<Rightarrow> state" where
  "show_popup ttl msg s = s\<lparr>popups := popups s @ [(ttl, msg)]\<rparr>"

text \<open>Reading and writing \<open>a[i]\<close> in an allocated block of \<open>length a\<close> cells.\<close>

definition rd :: "slot list \<Rightarrow> int \<Rightarrow> fault + slot" where
  "rd a i = (if 0 \<le> i \<and> i < int (length a) then Inr (a ! nat i) else Inl Out_Of_Bounds)"

definition wr :: "slot list \<Rightarrow> int \<Rightarrow> slot \<Rightarrow> fault + slot list" where
  "wr a i v = (if 0 \<le> i \<and> i < int (length a) then Inr (a[nat i := v]) else Inl Out_Of_Bounds)"

text \<open>The shifting loop of \<open>delete_movie\<close>, lines 215-218, from \<open>i\<close> on.\<close>

function shift_up :: "slot list \<Rightarrow> int \<Rightarrow> int \<Rightarrow> fault + slot list" where
  "shift_up a cnt i =
     (if i < cnt - 1 then
        (case rd a (i + 1) of
           Inl f \<Rightarrow> Inl f
         | Inr v \<Rightarrow> (case wr a i v of Inl f \<Rightarrow> Inl f | Inr a' \<Rightarrow> shift_up a' cnt (i + 1)))
      else Inr a)"
  by pat_completeness auto
termination
  by (relation "measure (\<lambda>(a, cnt, i). nat (cnt - 1 - i))") auto

declare shift_up.simps [simp del]

text \<open>
  \<open>delete_movie\<close>, lines 191-233. \<open>ch\<close> is the key that \<open>getch\<close> returns after the
  confirmation pop-up; \<open>*movies\<close> and \<open>*count\<close> are the fields of the state.
\<close>

definition invalid_index_msg :: popup where
  "invalid_index_msg = (''WARNING'', ''Invalid index or movie already deleted.\<newline>'')"

definition delete_movie :: "int \<Rightarrow> state \<Rightarrow> int \<Rightarrow> fault + state" where
  "delete_movie ch s index =
     (if index < 0 \<or> index \<ge> movie_count s then
        Inr (show_popup (fst invalid_index_msg) (snd invalid_index_msg) s)
      else case movies s of
        None \<Rightarrow> Inl Null_Deref
      | Some a \<Rightarrow>
         (case rd a index of
            Inl f \<Rightarrow> Inl f
          | Inr None \<Rightarrow> Inr (show_popup (fst invalid_index_msg) (snd invalid_index_msg) s)
          | Inr (Some p) \<Rightarrow>
             (let s1 = show_popup ''INFO'' ''Delete selected movie? (y/n): '' s in
              if ch = 121 \<or> ch = 89 then
                (case heap s1 p of
                   None \<Rightarrow> Inl Dangling
                 | Some m \<Rightarrow>
                    (case wr a index None of
                       Inl f \<Rightarrow> Inl f
                     | Inr a1 \<Rightarrow>
                        (case shift_up a1 (movie_count s1) index of
                           Inl f \<Rightarrow> Inl f
                         | Inr a2 \<Rightarrow>
                            (case wr a2 (movie_count s1 - 1) None of
                               Inl f \<Rightarrow> Inl f
                             | Inr a3 \<Rightarrow>
                                Inr (show_popup ''INFO'' ''Movie deleted successfully!''
                                      (s1\<lparr>heap := (heap s1)(p := None),
                                          movies := Some a3,
                                          movie_count := movie_count s1 - 1\<rparr>))))))
              else if ch = 110 \<or> ch = 78 then
                Inr (show_popup ''INFO'' ''Deletion canceled.'' s1)
              else
                Inr (show_popup ''WARNING'' ''Invalid input. Deletion canceled.'' s1))))"

section \<open>main.c\<close>

text \<open>
  \<open>realloc\<close> of the pointer array to \<open>n\<close> cells. The environment answers \<open>None\<close> for
  failure, or supplies the indeterminate contents of the cells beyond the old block. A
  request of no cells, or of a negative number of them (a huge \<open>size_t\<close>), is not served.
\<close>

definition realloc :: "(nat \<Rightarrow> slot) option \<Rightarrow> slot list option \<Rightarrow> int \<Rightarrow> slot list option" where
  "realloc answer old n =
     (case answer of
        None \<Rightarrow> None
      | Some junk \<Rightarrow>
          if n \<le> 0 then None
          else (let a = (case old of None \<Rightarrow> [] | Some xs \<Rightarrow> xs)
                in Some (take (nat n) a @ map junk [length a ..< nat n])))"

text \<open>
  \<open>resize_entries\<close>, lines 259-263: the capacity is doubled first, then the block is
  reallocated; the result is the returned pointer and the capacity left in \<open>*capacity\<close>.
\<close>

definition resize_entries ::
  "(nat \<Rightarrow> slot) option \<Rightarrow> slot list option \<Rightarrow> int \<Rightarrow> fault + (slot list option \<times> int)"
where
  "resize_entries answer entries capacity =
     (if capacity * 2 > INT_MAX \<or> capacity * 2 < INT_MIN then Inl Signed_Overflow
      else Inr (realloc answer entries (capacity * 2), capacity * 2))"

text \<open>The environment of one pass through code that may grow the array and create a record.\<close>

record step_env =
  realloc_answer :: "(nat \<Rightarrow> slot) option"
  allocs :: alloc_env

text \<open>
  What the user typed, once the prompt loop of lines 114-155 has accepted it. The two
  buffers are arrays, so \<open>create_movie\<close> never receives \<open>NULL\<close> from here.
\<close>

record typed =
  typed_title :: string
  typed_director :: string
  typed_year :: int

text \<open>
  \<open>MENU_MOVIE_ADD\<close>, lines 84-93: grow when full. The flag is \<open>False\<close> when the case is
  left by \<open>break\<close>.
\<close>

definition add_grow :: "(nat \<Rightarrow> slot) option \<Rightarrow> state \<Rightarrow> fault + (bool \<times> state)" where
  "add_grow answer s =
     (if movie_count s = movie_capacity s then
        (case resize_entries answer (movies s) (movie_capacity s) of
           Inl f \<Rightarrow> Inl f
         | Inr (temp, cap) \<Rightarrow>
            (if temp = None then
               Inr (False, show_popup ''ERROR'' ''Failed to resize movie array.\<newline>''
                             (s\<lparr>movie_capacity := cap\<rparr>))
             else Inr (True, s\<lparr>movies := temp, movie_capacity := cap\<rparr>)))
      else Inr (True, s))"

text \<open>Lines 160-169: the first \<open>NULL\<close> cell below the count, or \<open>-1\<close>.\<close>

function find_gap :: "slot list \<Rightarrow> int \<Rightarrow> int \<Rightarrow> fault + int" where
  "find_gap a cnt i =
     (if i < cnt then
        (case rd a i of
           Inl f \<Rightarrow> Inl f
         | Inr None \<Rightarrow> Inr i
         | Inr (Some p) \<Rightarrow> find_gap a cnt (i + 1))
      else Inr (- 1))"
  by pat_completeness auto
termination
  by (relation "measure (\<lambda>(a, cnt, i). nat (cnt - i))") auto

declare find_gap.simps [simp del]

text \<open>
  Lines 160-190: find the cell, create the record, store its pointer. The array pointer
  is only dereferenced by the scan when the count is positive, and by the store.
\<close>

definition add_insert :: "alloc_env \<Rightarrow> typed \<Rightarrow> state \<Rightarrow> fault + state" where
  "add_insert env inp s =
     (case (if movie_count s \<le> 0 then Inr (- 1)
            else case movies s of None \<Rightarrow> Inl Null_Deref
                 | Some a \<Rightarrow> find_gap a (movie_count s) 0) of
        Inl f \<Rightarrow> Inl f
      | Inr insert_index \<Rightarrow>
         (case create_movie env (heap s) (Some (typed_title inp)) (Some (typed_director inp))
                 (typed_year inp) of
            (h, None, ps) \<Rightarrow>
              Inr (show_popup ''ERROR'' ''Failed to create a new movie entry.\<newline>''
                    (s\<lparr>heap := h, popups := popups s @ ps\<rparr>))
          | (h, Some p, ps) \<Rightarrow>
             (case movies s of
                None \<Rightarrow> Inl Null_Deref
              | Some a \<Rightarrow>
                 (if insert_index \<noteq> - 1 then
                    (case wr a insert_index (Some p) of
                       Inl f \<Rightarrow> Inl f
                     | Inr a' \<Rightarrow> Inr (s\<lparr>heap := h, movies := Some a', popups := popups s @ ps\<rparr>))
                  else
                    (case wr a (movie_count s) (Some p) of
                       Inl f \<Rightarrow> Inl f
                     | Inr a' \<Rightarrow>
                        if movie_count s = INT_MAX then Inl Signed_Overflow
                        else Inr (s\<lparr>heap := h, movies := Some a',
                                    movie_count := movie_count s + 1,
                                    popups := popups s @ ps\<rparr>))))))"

text \<open>
  One pass through the \<open>MENU_MOVIE_ADD\<close> case. The input window and the flag
  \<open>data_changed\<close> of \<open>main\<close> play no part in what the array, the count and the
  capacity become, and are left out.
\<close>

definition menu_movie_add :: "step_env \<Rightarrow> typed \<Rightarrow> state \<Rightarrow> fault + state" where
  "menu_movie_add env inp s =
     (case add_grow (realloc_answer env) s of
        Inl f \<Rightarrow> Inl f
      | Inr (False, s1) \<Rightarrow> Inr s1
      | Inr (True, s1) \<Rightarrow> add_insert (allocs env) inp s1)"

text \<open>A sequence of passes, each with its own environment and input.\<close>

fun run_adds :: "(step_env \<times> typed) list \<Rightarrow> state \<Rightarrow> fault + state" where
  "run_adds [] s = Inr s"
| "run_adds (e # es) s =
     (case menu_movie_add (fst e) (snd e) s of Inl f \<Rightarrow> Inl f | Inr s' \<Rightarrow> run_adds es s')"

subsection \<open>Saving\<close>

text \<open>The line that \<open>fprintf(file, "%s|%s|%d|%.1f\n", ...)\<close> writes for one record.\<close>

definition fprintf_movie :: "Movie \<Rightarrow> fault + string" where
  "fprintf_movie m =
     (case (title m, director m) of
        (Some t, Some d) \<Rightarrow>
          Inr (t @ ''|'' @ d @ ''|'' @ printf_d (year m) @ ''|'' @ printf_1f (rating m) @ ''\<newline>'')
      | _ \<Rightarrow> Inl Null_Deref)"

text \<open>The loop of \<open>save_movies_to_file\<close>, lines 287-294; \<open>out\<close> is what the stream holds.\<close>

function save_loop :: "heap \<Rightarrow> slot list option \<Rightarrow> int \<Rightarrow> int \<Rightarrow> string \<Rightarrow> fault + string" where
  "save_loop h arr cnt i out =
     (if i < cnt then
        (case arr of
           None \<Rightarrow> Inl Null_Deref
         | Some a \<Rightarrow>
            (case rd a i of
               Inl f \<Rightarrow> Inl f
             | Inr None \<Rightarrow> save_loop h arr cnt (i + 1) out
             | Inr (Some p) \<Rightarrow>
                (case h p of
                   None \<Rightarrow> Inl Dangling
                 | Some m \<Rightarrow>
                    (case fprintf_movie m of
                       Inl f \<Rightarrow> Inl f
                     | Inr l \<Rightarrow> save_loop h arr cnt (i + 1) (out @ l)))))
      else Inr out)"
  by pat_completeness auto
termination
  by (relation "measure (\<lambda>(h, arr, cnt, i, out). nat (cnt - i))") auto

declare save_loop.simps [simp del]

text \<open>
  \<open>save_movies_to_file\<close>, lines 278-297. The file is its contents, \<open>None\<close> while it does
  not exist; \<open>can_open\<close> is whether \<open>fopen(filename, "w")\<close> succeeds, which empties the
  file. The result is the file afterwards and the text given to \<open>perror\<close>, if any.
\<close>

definition save_movies_to_file ::
  "bool \<Rightarrow> string option \<Rightarrow> heap \<Rightarrow> slot list option \<Rightarrow> int \<Rightarrow> fault + (string option \<times> string list)"
where
  "save_movies_to_file can_open file h arr cnt =
     (if \<not> can_open then Inr (file, [''Error opening file for writing''])
      else case save_loop h arr cnt 0 [] of
        Inl f \<Rightarrow> Inl f
      | Inr out \<Rightarrow> Inr (Some out, []))"

subsection \<open>Loading\<close>

text \<open>
  \<open>fgets(line, size, file)\<close>: at most one byte less than the buffer holds, up to and including the first
  newline; \<open>None\<close> at end of file. The result is the buffer and the unread rest.
\<close>

fun fgets_take :: "nat \<Rightarrow> string \<Rightarrow> string \<times> string" where
  "fgets_take 0 bs = ([], bs)"
| "fgets_take (Suc n) [] = ([], [])"
| "fgets_take (Suc n) (b # bs) =
     (if b = CHR 0x0A then ([b], bs)
      else (case fgets_take n bs of (l, r) \<Rightarrow> (b # l, r)))"

definition fgets :: "nat \<Rightarrow> string \<Rightarrow> (string \<times> string) option" where
  "fgets sz bs = (if bs = [] then None else Some (fgets_take (sz - 1) bs))"

text \<open>
  A buffer read as a C string ends at its first NUL; \<open>line[strcspn(line, "\n")] = 0\<close>
  then cuts it at its first newline.
\<close>

definition trim_line :: "string \<Rightarrow> string" where
  "trim_line buf = takeWhile (\<lambda>c. c \<noteq> CHR 0x00 \<and> c \<noteq> CHR 0x0A) buf"

text \<open>
  \<open>strtok(_, "|")\<close> on the text still to be scanned: leading delimiters are skipped; the
  token runs to the next delimiter, which is overwritten by NUL; scanning resumes behind it.
\<close>

definition strtok :: "string \<Rightarrow> string option \<times> string" where
  "strtok s =
     (let s1 = dropWhile (\<lambda>c. c = CHR ''|'') s
      in if s1 = [] then (None, [])
         else (Some (takeWhile (\<lambda>c. c \<noteq> CHR ''|'') s1),
               drop 1 (dropWhile (\<lambda>c. c \<noteq> CHR ''|'') s1)))"

text \<open>What \<open>line\<close> reads as once \<open>strtok\<close> has put its first NUL into it.\<close>

definition line_after_strtok :: "string \<Rightarrow> string" where
  "line_after_strtok s =
     takeWhile (\<lambda>c. c = CHR ''|'') s @
     takeWhile (\<lambda>c. c \<noteq> CHR ''|'') (dropWhile (\<lambda>c. c = CHR ''|'') s)"

text \<open>
  \<open>atoi\<close>: white space, an optional sign, then the longest run of digits (the value is 0
  when there is none). A value that does not fit an \<open>int\<close> is undefined behaviour.
\<close>

definition isspace :: "char \<Rightarrow> bool" where
  "isspace c = (c \<in> {CHR '' '', CHR 0x09, CHR 0x0A, CHR 0x0B, CHR 0x0C, CHR 0x0D})"

definition isdigit :: "char \<Rightarrow> bool" where
  "isdigit c = (48 \<le> (of_char c :: nat) \<and> (of_char c :: nat) \<le> 57)"

fun digits_value :: "int \<Rightarrow> string \<Rightarrow> int" where
  "digits_value acc [] = acc"
| "digits_value acc (c # cs) =
     (if isdigit c then digits_value (acc * 10 + (of_char c - 48)) cs else acc)"

definition atoi :: "string \<Rightarrow> fault + int" where
  "atoi s =
     (let s1 = dropWhile isspace s;
          v = (case s1 of
                 [] \<Rightarrow> 0
               | c # cs \<Rightarrow>
                   if c = CHR ''-'' then - digits_value 0 cs
                   else if c = CHR ''+'' then digits_value 0 cs
                   else digits_value 0 s1)
      in if INT_MIN \<le> v \<and> v \<le> INT_MAX then Inr v else Inl Signed_Overflow)"

text \<open>
  The body of the loop of \<open>load_movies_from_file\<close>, lines 328-353, for one buffer read
  by \<open>fgets\<close>. The pointer returned by \<open>resize_entries\<close> is stored unchecked.
\<close>

definition load_grow :: "(nat \<Rightarrow> slot) option \<Rightarrow> state \<Rightarrow> fault + state" where
  "load_grow answer s =
     (if movie_count s = movie_capacity s then
        (case resize_entries answer (movies s) (movie_capacity s) of
           Inl f \<Rightarrow> Inl f
         | Inr (p, cap) \<Rightarrow> Inr (s\<lparr>movies := p, movie_capacity := cap\<rparr>))
      else Inr s)"

definition load_parse :: "alloc_env \<Rightarrow> string \<Rightarrow> state \<Rightarrow> fault + state" where
  "load_parse env line s =
     (case strtok line of (title_tok, r1) \<Rightarrow>
      case strtok r1 of (director_tok, r2) \<Rightarrow>
      case strtok r2 of (year_str, r3) \<Rightarrow>
        if title_tok \<noteq> None \<and> director_tok \<noteq> None \<and> year_str \<noteq> None then
          (case atoi (the year_str) of
             Inl f \<Rightarrow> Inl f
           | Inr y \<Rightarrow>
              (case create_movie env (heap s) title_tok director_tok y of
                 (h, None, ps) \<Rightarrow> Inr (s\<lparr>heap := h, popups := popups s @ ps\<rparr>)
               | (h, Some p, ps) \<Rightarrow>
                  (case movies s of
                     None \<Rightarrow> Inl Null_Deref
                   | Some a \<Rightarrow>
                      (case wr a (movie_count s) (Some p) of
                         Inl f \<Rightarrow> Inl f
                       | Inr a' \<Rightarrow>
                          if movie_count s = INT_MAX then Inl Signed_Overflow
                          else Inr (s\<lparr>heap := h, movies := Some a',
                                      movie_count := movie_count s + 1,
                                      popups := popups s @ ps\<rparr>)))))
        else
          Inr (s\<lparr>stderr := stderr s @ [''Error parsing line: '' @ line_after_strtok line @ ''\<newline>'']\<rparr>))"

definition load_line :: "step_env \<Rightarrow> string \<Rightarrow> state \<Rightarrow> fault + state" where
  "load_line env buf s =
     (case load_grow (realloc_answer env) s of
        Inl f \<Rightarrow> Inl f
      | Inr s1 \<Rightarrow> load_parse (allocs env) (trim_line buf) s1)"

text \<open>
  The \<open>while (fgets(...))\<close> loop over the unread bytes of the file; \<open>envs k\<close> is the
  environment of iteration \<open>k\<close>.
\<close>

function load_loop :: "(nat \<Rightarrow> step_env) \<Rightarrow> nat \<Rightarrow> state \<Rightarrow> string \<Rightarrow> fault + state" where
  "load_loop envs k s bs =
     (case fgets 256 bs of
        None \<Rightarrow> Inr s
      | Some (buf, rest) \<Rightarrow>
         (case load_line (envs k) buf s of
            Inl f \<Rightarrow> Inl f
          | Inr s' \<Rightarrow> load_loop envs (Suc k) s' rest))"
  by pat_completeness auto
termination
proof (relation "measure (\<lambda>(envs, k, s, bs). length bs)")
  show "wf (measure (\<lambda>(envs, k, s, bs). length bs))"
    by simp
next
  fix envs :: "nat \<Rightarrow> step_env" and k :: nat and s :: state and bs x2 x y s'
  assume a: "fgets 256 bs = Some x2" "(x, y) = x2"
  have shorter: "length (snd (fgets_take (Suc n) cs)) < length cs" if "cs \<noteq> []" for n cs
    using that
  proof (induction n arbitrary: cs)
    case 0
    then show ?case by (cases cs) auto
  next
    case (Suc n)
    then obtain c cs' where cs: "cs = c # cs'" by (cases cs) auto
    show ?case
    proof (cases "cs' = []")
      case True
      then show ?thesis using cs by auto
    next
      case False
      from Suc.IH [OF False] show ?thesis
        using cs by (auto split: prod.splits)
    qed
  qed
  from a have "bs \<noteq> []" and "y = snd (fgets_take 255 bs)"
    by (auto simp: fgets_def split: if_splits)
  then have "length y < length bs"
    using shorter [of bs 254] by simp
  then show "((envs, Suc k, s', y), (envs, k, s, bs)) \<in> measure (\<lambda>(envs, k, s, bs). length bs)"
    by simp
qed

declare load_loop.simps [simp del]

text \<open>
  \<open>load_movies_from_file\<close>, lines 316-357; \<open>file\<close> is \<open>None\<close> when it cannot be opened.
\<close>

definition load_movies_from_file :: "(nat \<Rightarrow> step_env) \<Rightarrow> string option \<Rightarrow> state \<Rightarrow> fault + state" where
  "load_movies_from_file envs file s =
     (case file of
        None \<Rightarrow> Inr (s\<lparr>stderr := stderr s @ [''Could not open file for reading'']\<rparr>)
      | Some bs \<Rightarrow> load_loop envs 0 s bs)"

subsection \<open>Well-formed storage\<close>

text \<open>
  The array pointer is not \<open>NULL\<close>, the block has exactly \<open>movie_capacity\<close> cells, and
  the count lies between 0 and the capacity.
\<close>

definition storage_ok :: "state \<Rightarrow> bool" where
  "storage_ok s =
     (case movies s of
        None \<Rightarrow> False
      | Some a \<Rightarrow> int (length a) = movie_capacity s \<and> 0 < movie_capacity s \<and>
                  0 \<le> movie_count s \<and> movie_count s \<le> movie_capacity s)"

subsection \<open>What the specification says a saved file is\<close>

text \<open>
  Following the specification's words: one line per occupied slot below the count, in
  slot order, empty slots skipped, each line \<open>title|director|year|rating\<close> and a newline.
\<close>

definition spec_line :: "Movie \<Rightarrow> string" where
  "spec_line m =
     the (title m) @ ''|'' @ the (director m) @ ''|'' @ printf_d (year m) @ ''|'' @
     printf_1f (rating m) @ ''\<newline>''"

definition spec_saved_file :: "heap \<Rightarrow> slot list \<Rightarrow> int \<Rightarrow> string" where
  "spec_saved_file h a n = concat (map (\<lambda>p. spec_line (the (h p))) [p. Some p \<leftarrow> take (nat n) a])"

text \<open>
  Following the specification's words: a number rendered with exactly one digit after the
  decimal point is an optional minus sign, at least one digit, a point and one digit.
\<close>

definition one_decimal :: "string \<Rightarrow> bool" where
  "one_decimal s =
     (let b = (case s of [] \<Rightarrow> [] | c # cs \<Rightarrow> if c = CHR ''-'' then cs else s)
      in 3 \<le> length b \<and> (\<forall>c\<in>set (butlast (butlast b)). isdigit c) \<and>
         last (butlast b) = CHR ''.'' \<and> isdigit (last b))"

text \<open>
  Every occupied cell below the count points to a live record whose two strings are not
  \<open>NULL\<close>: what \<open>fprintf\<close> needs to be defined.
\<close>

definition slots_live :: "heap \<Rightarrow> slot list \<Rightarrow> int \<Rightarrow> bool" where
  "slots_live h a n =
     (\<forall>sl\<in>set (take (nat n) a).
        case sl of
          None \<Rightarrow> True
        | Some p \<Rightarrow> (case h p of None \<Rightarrow> False | Some m \<Rightarrow> title m \<noteq> None \<and> director m \<noteq> None))"

text \<open>
  Every occupied cell's record holds field values of its types' domains: the year is a
  value of C's \<open>int\<close>, and the rating is a number, neither NaN nor an infinity, as is
  every rating of the record's domain (0, or the 1 to 5 that \<open>rate_movie\<close> stores).
\<close>

definition fields_in_domain :: "heap \<Rightarrow> slot list \<Rightarrow> int \<Rightarrow> bool" where
  "fields_in_domain h a n =
     (\<forall>sl\<in>set (take (nat n) a).
        case sl of
          None \<Rightarrow> True
        | Some p \<Rightarrow>
           (case h p of
              None \<Rightarrow> True
            | Some m \<Rightarrow> INT_MIN \<le> year m \<and> year m \<le> INT_MAX \<and> float_finite (rating m)))"

subsection \<open>Tokens of a line, as the specification speaks of them\<close>





section \<open>Decimal output reads back\<close>

lemma of_char_digit_char: "(of_char (digit_char n) :: int) = 48 + n mod 10"
proof -
  have "(48 + n mod 10) mod 256 = 48 + n mod 10"
    by (rule mod_pos_pos_trivial) (use pos_mod_bound [of 10 n] pos_mod_sign [of 10 n] in linarith)+
  then show ?thesis
    by (simp add: digit_char_def)
qed

lemma isdigit_digit_char: "isdigit (digit_char n)"
proof -
  have "(of_char (digit_char n) :: int) = int (of_char (digit_char n) :: nat)"
    by (simp add: of_char_def)
  with of_char_digit_char [of n] have "int (of_char (digit_char n) :: nat) = 48 + n mod 10"
    by simp
  moreover have "0 \<le> n mod 10" "n mod 10 < 10"
    by simp_all
  ultimately show ?thesis
    unfolding isdigit_def by linarith
qed

lemma digits_value_append:
  "\<forall>c\<in>set xs. isdigit c \<Longrightarrow> digits_value acc (xs @ ys) = digits_value (digits_value acc xs) ys"
  by (induction xs arbitrary: acc) auto

lemma printf_u_nonempty: "printf_u n \<noteq> []"
  by (subst printf_u.simps) simp

lemma printf_u_digits: "\<forall>c\<in>set (printf_u n). isdigit c"
proof (induction n rule: printf_u.induct)
  case (1 n)
  show ?case
  proof (cases "n < 10")
    case True
    then show ?thesis
      by (subst printf_u.simps) (simp add: isdigit_digit_char)
  next
    case False
    with 1 show ?thesis
      by (subst printf_u.simps) (simp add: isdigit_digit_char)
  qed
qed

lemma digits_value_printf_u: "0 \<le> n \<Longrightarrow> digits_value acc (printf_u n) = acc * 10 ^ length (printf_u n) + n"
proof (induction n arbitrary: acc rule: printf_u.induct)
  case (1 n)
  show ?case
  proof (cases "n < 10")
    case True
    with 1(2) have "n mod 10 = n" by simp
    with True show ?thesis
      by (subst (1 2) printf_u.simps) (simp add: isdigit_digit_char of_char_digit_char)
  next
    case False
    with 1(2) have nn: "0 \<le> n div 10" by simp
    have ih: "digits_value acc (printf_u (n div 10)) = acc * 10 ^ length (printf_u (n div 10)) + n div 10"
      using 1(1) [OF False nn] .
    have "digits_value acc (printf_u n) =
            digits_value (digits_value acc (printf_u (n div 10))) [digit_char (n mod 10)]"
      using False by (subst printf_u.simps) (simp add: digits_value_append printf_u_digits)
    also have "\<dots> = (acc * 10 ^ length (printf_u (n div 10)) + n div 10) * 10 + n mod 10"
      by (simp add: ih isdigit_digit_char of_char_digit_char)
    also have "\<dots> = acc * 10 ^ length (printf_u n) + n"
      using False by (subst (2) printf_u.simps) (simp add: algebra_simps)
    finally show ?thesis .
  qed
qed

lemma isdigit_not_space_sign: "isdigit c \<Longrightarrow> \<not> isspace c \<and> c \<noteq> CHR ''-'' \<and> c \<noteq> CHR ''+''"
  by (auto simp: isdigit_def isspace_def)

lemma atoi_digits:
  assumes "xs \<noteq> []" "\<forall>c\<in>set xs. isdigit c"
  shows "atoi xs = (let v = digits_value 0 xs in if INT_MIN \<le> v \<and> v \<le> INT_MAX then Inr v else Inl Signed_Overflow)"
proof -
  from assms obtain c cs where xs: "xs = c # cs" and c: "isdigit c"
    by (cases xs) auto
  from c isdigit_not_space_sign [of c] show ?thesis
    by (simp add: atoi_def xs)
qed

lemma atoi_printf_d:
  assumes "INT_MIN \<le> y" "y \<le> INT_MAX"
  shows "atoi (printf_d y) = Inr y"
proof (cases "y < 0")
  case False
  then have "digits_value 0 (printf_u y) = y"
    by (simp add: digits_value_printf_u)
  with False assms show ?thesis
    by (simp add: printf_d_def atoi_digits printf_u_nonempty printf_u_digits)
next
  case True
  then have v: "digits_value 0 (printf_u (- y)) = - y"
    by (simp add: digits_value_printf_u)
  have "\<not> isspace CHR ''-''"
    by (simp add: isspace_def)
  with True assms v show ?thesis
    by (simp add: printf_d_def atoi_def)
qed

section \<open>Record construction\<close>

text \<open>
  C5, as stated, fails: \<open>create_movie\<close> compares its string arguments with \<open>NULL\<close>, not
  with the empty string. Called with an empty title, a director and the year 2010 it
  returns a record, and the record's title is empty.
\<close>

theorem create_movie_accepts_empty_title:
  "create_movie \<lparr>malloc_movie = Some (0, \<lparr>title = None, director = None, year = 0, rating = 0\<rparr>),
                  strdup_title = True, strdup_director = True\<rparr>
     Map.empty (Some '''') (Some ''Nolan'') 2010
   = ([0 \<mapsto> \<lparr>title = Some '''', director = Some ''Nolan'', year = 2010, rating = 0\<rparr>],
      Some 0, [])"
  by (simp add: create_movie_def strdup_def)

text \<open>
  C5, amended: \<open>create_movie\<close> returns \<open>NULL\<close> exactly when the title or the director is
  \<open>NULL\<close>, or the year is at most 1800, or one of its allocations fails; a call that
  succeeds leaves a record holding exactly the given title, director and year, whether
  the strings are empty or not.
\<close>

theorem create_movie_fails_iff:
  "(fst (snd (create_movie env h t d y)) = None
      \<longleftrightarrow> t = None \<or> d = None \<or> y \<le> 1800 \<or> \<not> allocs_ok env) \<and>
   (\<forall>p. fst (snd (create_movie env h t d y)) = Some p \<longrightarrow>
      (\<exists>m. fst (create_movie env h t d y) p = Some m \<and>
           title m = t \<and> director m = d \<and> year m = y))"
  by (auto simp: create_movie_def strdup_def allocs_ok_def split: option.splits)

theorem create_movie_fails_iff_witness:
  "fst (snd (create_movie
         \<lparr>malloc_movie = Some (0, \<lparr>title = None, director = None, year = 0, rating = 0\<rparr>),
          strdup_title = True, strdup_director = True\<rparr>
         Map.empty (Some ''Inception'') (Some ''Nolan'') 2010)) = Some 0 \<and>
   (\<exists>m. fst (create_movie
         \<lparr>malloc_movie = Some (0, \<lparr>title = None, director = None, year = 0, rating = 0\<rparr>),
          strdup_title = True, strdup_director = True\<rparr>
         Map.empty (Some ''Inception'') (Some ''Nolan'') 2010) 0 = Some m \<and>
        title m = Some ''Inception'' \<and> director m = Some ''Nolan'' \<and> year m = 2010) \<and>
   fst (snd (create_movie
         \<lparr>malloc_movie = Some (0, \<lparr>title = None, director = None, year = 0, rating = 0\<rparr>),
          strdup_title = True, strdup_director = True\<rparr>
         Map.empty (Some ''Inception'') (Some ''Nolan'') 1800)) = None"
proof -
  let ?env = "\<lparr>malloc_movie = Some (0, \<lparr>title = None, director = None, year = 0, rating = 0\<rparr>),
               strdup_title = True, strdup_director = True\<rparr>"
  have ok: "allocs_ok ?env"
    by (simp add: allocs_ok_def)
  have r: "fst (snd (create_movie ?env Map.empty (Some ''Inception'') (Some ''Nolan'') 2010)) = Some 0"
    by (simp add: create_movie_def strdup_def)
  from create_movie_fails_iff [of ?env Map.empty "Some ''Inception''" "Some ''Nolan''" 2010] r
  have a: "\<exists>m. fst (create_movie ?env Map.empty (Some ''Inception'') (Some ''Nolan'') 2010) 0 = Some m \<and>
        title m = Some ''Inception'' \<and> director m = Some ''Nolan'' \<and> year m = 2010"
    by blast
  from create_movie_fails_iff [of ?env Map.empty "Some ''Inception''" "Some ''Nolan''" 1800]
  have b: "fst (snd (create_movie ?env Map.empty (Some ''Inception'') (Some ''Nolan'') 1800)) = None"
    by simp
  from r a b show ?thesis by blast
qed

section \<open>Update\<close>

text \<open>
  An argument that points into the record's own title or director is copied only after
  that string has been freed: the model reports the read as a fault.
\<close>

lemma update_movie_own_string_faults:
  "h p = Some m \<Longrightarrow> 0 < y \<Longrightarrow> d \<noteq> Arg_Null \<Longrightarrow>
   update_movie dup_t dup_d h (Some p) Arg_Own d y = Inl Dangling"
  by (simp add: update_movie_def strdup_after_free_def)

text \<open>
  C6, as stated, fails: \<open>update_movie\<close> rejects \<open>NULL\<close> strings, not empty ones. Given an
  empty new title it reports success and the record's title becomes empty.
\<close>

theorem update_movie_accepts_empty_title:
  "update_movie True True
     [1 \<mapsto> \<lparr>title = Some ''Inception'', director = Some ''Nolan'', year = 2010, rating = 0\<rparr>]
     (Some 1) (Arg_Apart '''') (Arg_Apart ''Nolan'') 2010
   = Inr ([1 \<mapsto> \<lparr>title = Some '''', director = Some ''Nolan'', year = 2010, rating = 0\<rparr>],
          MOVIE_SUCCESS)"
  by (simp add: update_movie_def strdup_after_free_def strdup_def)

text \<open>
  C6, amended: \<open>update_movie\<close> returns the error code and leaves the heap, hence all
  three fields, untouched when the record pointer, the new title or the new director is
  \<open>NULL\<close> or the new year is at most 0. When none of these holds, the record is live, the
  new strings are held apart from the record's own and both string copies succeed, it
  returns success and the record holds the new title, director and year, its rating
  unchanged. Empty strings are accepted.
\<close>

theorem update_movie_spec:
  "(movie = None \<or> t = Arg_Null \<or> d = Arg_Null \<or> y \<le> 0 \<longrightarrow>
      update_movie dup_t dup_d h movie t d y = Inr (h, MOVIE_ERROR_NULL_POINTER)) \<and>
   (h p = Some m \<and> 0 < y \<longrightarrow>
      update_movie True True h (Some p) (Arg_Apart nt) (Arg_Apart nd) y =
        Inr (h(p \<mapsto> m\<lparr>title := Some nt, director := Some nd, year := y\<rparr>), MOVIE_SUCCESS))"
  by (simp add: update_movie_def strdup_after_free_def strdup_def)

theorem update_movie_spec_witness:
  "update_movie True True
     [1 \<mapsto> \<lparr>title = Some ''Inception'', director = Some ''Nolan'', year = 2010, rating = 5\<rparr>]
     (Some 1) (Arg_Apart ''Tenet'') (Arg_Apart ''C. Nolan'') 0
   = Inr ([1 \<mapsto> \<lparr>title = Some ''Inception'', director = Some ''Nolan'', year = 2010, rating = 5\<rparr>],
          MOVIE_ERROR_NULL_POINTER) \<and>
   update_movie True True
     [1 \<mapsto> \<lparr>title = Some ''Inception'', director = Some ''Nolan'', year = 2010, rating = 5\<rparr>]
     (Some 1) (Arg_Apart ''Tenet'') (Arg_Apart ''C. Nolan'') 2020
   = Inr ([1 \<mapsto> \<lparr>title = Some ''Tenet'', director = Some ''C. Nolan'', year = 2020, rating = 5\<rparr>],
          MOVIE_SUCCESS)"
proof -
  let ?m = "\<lparr>title = Some ''Inception'', director = Some ''Nolan'', year = 2010, rating = 5\<rparr>"
  have "update_movie True True [1 \<mapsto> ?m] (Some 1) (Arg_Apart ''Tenet'') (Arg_Apart ''C. Nolan'') 0
          = Inr ([1 \<mapsto> ?m], MOVIE_ERROR_NULL_POINTER)"
    using update_movie_spec [of "Some 1" "Arg_Apart ''Tenet''" "Arg_Apart ''C. Nolan''" 0 True True
                                "[1 \<mapsto> ?m]"]
    by simp
  moreover have "update_movie True True [1 \<mapsto> ?m] (Some 1) (Arg_Apart ''Tenet'') (Arg_Apart ''C. Nolan'') 2020
          = Inr ([1 \<mapsto> ?m\<lparr>title := Some ''Tenet'', director := Some ''C. Nolan'', year := 2020\<rparr>],
                 MOVIE_SUCCESS)"
    using update_movie_spec [of _ _ _ 2020 _ _ "[1 \<mapsto> ?m]" 1 ?m "''Tenet''" "''C. Nolan''"]
    by simp
  ultimately show ?thesis by simp
qed

section \<open>Display\<close>

text \<open>
  C10, as stated, fails: the format string of \<open>display_movie\<close> has no space after its
  commas and ends the line. For Inception, Nolan, 2010 the output is not the claimed text.
\<close>

theorem display_movie_no_space_after_comma:
  "display_movie
     [1 \<mapsto> \<lparr>title = Some ''Inception'', director = Some ''Nolan'', year = 2010, rating = 0\<rparr>]
     (Some 1)
   = Inr ''Title: Inception,Director: Nolan,Year: 2010\<newline>'' \<and>
   ''Title: Inception,Director: Nolan,Year: 2010\<newline>''
     \<noteq> ''Title: Inception, Director: Nolan, Year: 2010''"
  by code_simp

text \<open>
  C10, amended: for a record with title \<open>t\<close>, director \<open>d\<close> and year \<open>y\<close>,
  \<open>display_movie\<close> prints exactly \<open>Title: t,Director: d,Year: y\<close> and a newline, the
  fields separated by a comma without a space, the year in decimal (so that \<open>atoi\<close> reads
  it back); the rating has no influence on the output.
\<close>

theorem display_movie_format:
  "h p = Some m \<and> title m = Some t \<and> director m = Some d \<and> INT_MIN \<le> year m \<and> year m \<le> INT_MAX \<longrightarrow>
     display_movie h (Some p) =
       Inr (''Title: '' @ t @ '',Director: '' @ d @ '',Year: '' @ printf_d (year m) @ ''\<newline>'') \<and>
     atoi (printf_d (year m)) = Inr (year m) \<and>
     display_movie (h(p \<mapsto> m\<lparr>rating := r\<rparr>)) (Some p) = display_movie h (Some p)"
  by (simp add: display_movie_def atoi_printf_d)

theorem display_movie_format_witness:
  "display_movie
     [1 \<mapsto> \<lparr>title = Some ''Inception'', director = Some ''Nolan'', year = 2010, rating = 0\<rparr>]
     (Some 1)
   = Inr (''Title: '' @ ''Inception'' @ '',Director: '' @ ''Nolan'' @ '',Year: '' @ printf_d 2010 @ ''\<newline>'') \<and>
   atoi (printf_d 2010) = Inr 2010 \<and>
   display_movie
     [1 \<mapsto> \<lparr>title = Some ''Inception'', director = Some ''Nolan'', year = 2010, rating = 0x40A00000\<rparr>]
     (Some 1)
   = display_movie
     [1 \<mapsto> \<lparr>title = Some ''Inception'', director = Some ''Nolan'', year = 2010, rating = 0\<rparr>]
     (Some 1)"
  using display_movie_format
    [of "[1 \<mapsto> \<lparr>title = Some ''Inception'', director = Some ''Nolan'', year = 2010, rating = 0\<rparr>]"
        1 "\<lparr>title = Some ''Inception'', director = Some ''Nolan'', year = 2010, rating = 0\<rparr>"
        "''Inception''" "''Nolan''" "0x40A00000"]
  by (simp add: INT_MIN_def INT_MAX_def)

section \<open>The rating of a new record\<close>

text \<open>
  C4 against the code: \<open>create_movie\<close> never assigns \<open>rating\<close>, so a new record shows
  whatever the block returned by \<open>malloc\<close> held. When that block is a recycled one whose
  rating bits are those of 5.0, loading the two-line file of the scenario gives one
  record, and its rating is 5.0, not 0: \<open>save_movies_to_file\<close> would write it as 5.0.
\<close>

theorem load_rating_is_block_contents:
  "(case load_movies_from_file
           (\<lambda>k. \<lparr>realloc_answer = None,
                  allocs = \<lparr>malloc_movie = Some (0, \<lparr>title = None, director = None, year = 0,
                                                    rating = 0x40A00000\<rparr>),
                            strdup_title = True, strdup_director = True\<rparr>\<rparr>)
           (Some ''Inception|Nolan|2010|4.5\<newline>BadLine\<newline>'')
           \<lparr>heap = Map.empty, movies = Some (replicate 10 None), movie_count = 0,
            movie_capacity = 10, popups = [], stderr = []\<rparr> of
      Inl f \<Rightarrow> False
    | Inr s \<Rightarrow> movie_count s = 1 \<and> movies s = Some (Some 0 # replicate 9 None) \<and>
               map_option rating (heap s 0) = Some 0x40A00000 \<and>
               (0x40A00000 :: cfloat) \<noteq> 0 \<and> printf_1f 0x40A00000 = ''5.0'')"
  by code_simp

section \<open>Growing the array\<close>

text \<open>
  C3 against the code: \<open>resize_entries\<close> doubles \<open>*capacity\<close> before it calls
  \<open>realloc\<close>. When \<open>realloc\<close> fails on a full array of 10 cells, the add is abandoned
  with capacity 20 over a block that still has 10 cells; the next add then finds
  \<open>count \<noteq> capacity\<close>, does not grow, and stores beyond the block.
\<close>

theorem failed_resize_keeps_doubled_capacity:
  "resize_entries None (Some (map Some [0..<10])) 10 = Inr (None, 20) \<and>
   (case menu_movie_add
           \<lparr>realloc_answer = None,
            allocs = \<lparr>malloc_movie = Some (10, \<lparr>title = None, director = None, year = 0, rating = 0\<rparr>),
                      strdup_title = True, strdup_director = True\<rparr>\<rparr>
           \<lparr>typed_title = ''Tenet'', typed_director = ''Nolan'', typed_year = 2020\<rparr>
           \<lparr>heap = (\<lambda>a. if a < 10 then Some \<lparr>title = Some ''T'', director = Some ''D'', year = 2000, rating = 0\<rparr> else None),
            movies = Some (map Some [0..<10]), movie_count = 10,
            movie_capacity = 10, popups = [], stderr = []\<rparr> of
      Inl f \<Rightarrow> False
    | Inr s \<Rightarrow> movie_capacity s = 20 \<and> movie_count s = 10 \<and>
               map_option length (movies s) = Some 10 \<and>
               (case menu_movie_add
                       \<lparr>realloc_answer = Some (\<lambda>i. None),
                        allocs = \<lparr>malloc_movie = Some (10, \<lparr>title = None, director = None, year = 0, rating = 0\<rparr>),
                                  strdup_title = True, strdup_director = True\<rparr>\<rparr>
                       \<lparr>typed_title = ''Tenet'', typed_director = ''Nolan'', typed_year = 2020\<rparr> s of
                  Inl f \<Rightarrow> f = Out_Of_Bounds
                | Inr s' \<Rightarrow> False))"
  by code_simp

section \<open>Removal\<close>

lemma rd_in_range: "0 \<le> i \<Longrightarrow> i < int (length a) \<Longrightarrow> rd a i = Inr (a ! nat i)"
  by (simp add: rd_def)

lemma wr_in_range: "0 \<le> i \<Longrightarrow> i < int (length a) \<Longrightarrow> wr a i v = Inr (a[nat i := v])"
  by (simp add: wr_def)

text \<open>
  The loop copies each cell in \<open>(i, cnt)\<close> one place down and leaves every other cell,
  the last occupied one included, as it was.
\<close>

lemma shift_up_cells:
  "0 \<le> i \<Longrightarrow> cnt \<le> int (length a) \<Longrightarrow>
   \<exists>a'. shift_up a cnt i = Inr a' \<and> length a' = length a \<and>
        (\<forall>j < length a. a' ! j = (if i \<le> int j \<and> int j < cnt - 1 then a ! (j + 1) else a ! j))"
proof (induction a cnt i rule: shift_up.induct)
  case (1 a cnt i)
  show ?case
  proof (cases "i < cnt - 1")
    case False
    then show ?thesis
      by (subst shift_up.simps) auto
  next
    case True
    let ?v = "a ! nat (i + 1)"
    let ?a1 = "a[nat i := ?v]"
    from True 1(2,3) have r: "rd a (i + 1) = Inr ?v" and w: "wr a i ?v = Inr ?a1"
      by (simp_all add: rd_in_range wr_in_range)
    from 1(1) [OF True r w] 1(2,3)
    obtain a' where a': "shift_up ?a1 cnt (i + 1) = Inr a'" "length a' = length a"
      and cells: "\<forall>j < length a. a' ! j =
                    (if i + 1 \<le> int j \<and> int j < cnt - 1 then ?a1 ! (j + 1) else ?a1 ! j)"
      by auto
    have "shift_up a cnt i = Inr a'"
      using True r w a'(1) by (subst shift_up.simps) simp
    moreover have "a' ! j = (if i \<le> int j \<and> int j < cnt - 1 then a ! (j + 1) else a ! j)"
      if j: "j < length a" for j
    proof (cases "int j = i")
      case True
      then have ij: "nat i = j" and ij1: "nat (i + 1) = j + 1"
        by linarith+
      from cells j have "a' ! j = (if i + 1 \<le> int j \<and> int j < cnt - 1 then ?a1 ! (j + 1) else ?a1 ! j)"
        by blast
      also from True have "\<dots> = ?a1 ! j" by simp
      also from j have "\<dots> = ?v" unfolding ij by simp
      also have "\<dots> = a ! (j + 1)" unfolding ij1 ..
      finally show ?thesis
        using True \<open>i < cnt - 1\<close> by simp
    next
      case False
      with 1(2) have ne: "nat i \<noteq> j" "nat i \<noteq> j + 1 \<or> \<not> i + 1 \<le> int j"
        by linarith+
      show ?thesis
        using cells j False ne by (cases "i + 1 \<le> int j") auto
    qed
    ultimately show ?thesis
      using a'(2) by blast
  qed
qed

text \<open>
  C1. Let the array have at least \<open>n = *count\<close> cells. A confirmed \<open>delete_movie\<close> at an
  index \<open>i\<close> in \<open>[0, n)\<close> whose cell points to a live record frees that record, moves
  every cell at a position above \<open>i\<close> and below \<open>n\<close> one place down, sets cell \<open>n - 1\<close>
  to \<open>NULL\<close>, leaves the cells from \<open>n\<close> on alone and makes the count \<open>n - 1\<close>. At an
  index outside \<open>[0, n)\<close>, or at a \<open>NULL\<close> cell, it shows the warning and changes nothing
  else.
\<close>

theorem delete_movie_spec:
  "movies s = Some a \<and> movie_count s = n \<and> n \<le> int (length a) \<longrightarrow>
     (0 \<le> i \<and> i < n \<and> a ! nat i = Some p \<and> heap s p = Some m \<and> (ch = 121 \<or> ch = 89) \<longrightarrow>
        (\<exists>s' a'. delete_movie ch s i = Inr s' \<and>
           heap s' = (heap s)(p := None) \<and>
           movie_count s' = n - 1 \<and>
           movies s' = Some a' \<and> length a' = length a \<and>
           (\<forall>j < length a.
              a' ! j = (if int j < i then a ! j
                        else if int j < n - 1 then a ! (j + 1)
                        else if int j = n - 1 then None
                        else a ! j)))) \<and>
     (i < 0 \<or> n \<le> i \<or> a ! nat i = None \<longrightarrow>
        delete_movie ch s i = Inr (s\<lparr>popups := popups s @ [invalid_index_msg]\<rparr>))"
proof (intro impI conjI)
  assume wf: "movies s = Some a \<and> movie_count s = n \<and> n \<le> int (length a)"
  assume "i < 0 \<or> n \<le> i \<or> a ! nat i = None"
  with wf show "delete_movie ch s i = Inr (s\<lparr>popups := popups s @ [invalid_index_msg]\<rparr>)"
    by (auto simp: delete_movie_def show_popup_def rd_def)
next
  assume wf: "movies s = Some a \<and> movie_count s = n \<and> n \<le> int (length a)"
  assume hit: "0 \<le> i \<and> i < n \<and> a ! nat i = Some p \<and> heap s p = Some m \<and> (ch = 121 \<or> ch = 89)"
  let ?a1 = "a[nat i := None]"
  from wf hit have r: "rd a i = Inr (Some p)" and w1: "wr a i None = Inr ?a1"
    by (simp_all add: rd_in_range wr_in_range)
  from wf hit shift_up_cells [of i n ?a1]
  obtain a2 where a2: "shift_up ?a1 n i = Inr a2" "length a2 = length a"
    and cells: "\<forall>j < length a. a2 ! j =
                  (if i \<le> int j \<and> int j < n - 1 then ?a1 ! (j + 1) else ?a1 ! j)"
    by auto
  let ?a3 = "a2[nat (n - 1) := None]"
  from wf hit a2(2) have w3: "wr a2 (n - 1) None = Inr ?a3"
    by (simp add: wr_in_range)
  let ?s' = "show_popup ''INFO'' ''Movie deleted successfully!''
               ((show_popup ''INFO'' ''Delete selected movie? (y/n): '' s)
                  \<lparr>heap := (heap s)(p := None), movies := Some ?a3, movie_count := n - 1\<rparr>)"
  have run: "delete_movie ch s i = Inr ?s'"
    using wf hit r w1 a2(1) w3 by (simp add: delete_movie_def show_popup_def Let_def)
  have "?a3 ! j = (if int j < i then a ! j
                   else if int j < n - 1 then a ! (j + 1)
                   else if int j = n - 1 then None
                   else a ! j)" if j: "j < length a" for j
  proof -
    consider "int j < i" | "i \<le> int j" "int j < n - 1" | "int j = n - 1" | "n - 1 < int j"
      using hit by linarith
    then show ?thesis
    proof cases
      case 1
      with hit have "nat (n - 1) \<noteq> j" "nat i \<noteq> j" by linarith+
      with 1 j cells a2(2) show ?thesis by simp
    next
      case 2
      with hit have "nat (n - 1) \<noteq> j" "nat i \<noteq> j + 1" by linarith+
      with 2 j cells a2(2) show ?thesis by simp
    next
      case 3
      with hit have "nat (n - 1) = j" by linarith
      with 3 j a2(2) hit show ?thesis by simp
    next
      case 4
      with hit have "nat (n - 1) \<noteq> j" "nat i \<noteq> j" by linarith+
      with 4 j cells a2(2) hit show ?thesis by simp
    qed
  qed
  with run a2(2) show "\<exists>s' a'. delete_movie ch s i = Inr s' \<and>
           heap s' = (heap s)(p := None) \<and>
           movie_count s' = n - 1 \<and>
           movies s' = Some a' \<and> length a' = length a \<and>
           (\<forall>j < length a.
              a' ! j = (if int j < i then a ! j
                        else if int j < n - 1 then a ! (j + 1)
                        else if int j = n - 1 then None
                        else a ! j))"
    by (intro exI [of _ ?s'] exI [of _ ?a3]) (simp add: show_popup_def)
qed

theorem delete_movie_spec_witness:
  "(\<exists>s' a'. delete_movie 121
        \<lparr>heap = [1 \<mapsto> \<lparr>title = Some ''A'', director = Some ''X'', year = 2001, rating = 0\<rparr>,
                 2 \<mapsto> \<lparr>title = Some ''B'', director = Some ''Y'', year = 2002, rating = 0\<rparr>,
                 3 \<mapsto> \<lparr>title = Some ''C'', director = Some ''Z'', year = 2003, rating = 0\<rparr>],
         movies = Some [Some 1, Some 2, Some 3, Some 9], movie_count = 3, movie_capacity = 4,
         popups = [], stderr = []\<rparr> 0 = Inr s' \<and>
      heap s' 1 = None \<and> heap s' 2 \<noteq> None \<and> heap s' 3 \<noteq> None \<and>
      movie_count s' = 2 \<and> movies s' = Some a' \<and> length a' = 4 \<and>
      a' ! 0 = Some 2 \<and> a' ! 1 = Some 3 \<and> a' ! 2 = None \<and> a' ! 3 = Some 9) \<and>
   delete_movie 121
        \<lparr>heap = [1 \<mapsto> \<lparr>title = Some ''A'', director = Some ''X'', year = 2001, rating = 0\<rparr>,
                 2 \<mapsto> \<lparr>title = Some ''B'', director = Some ''Y'', year = 2002, rating = 0\<rparr>,
                 3 \<mapsto> \<lparr>title = Some ''C'', director = Some ''Z'', year = 2003, rating = 0\<rparr>],
         movies = Some [Some 1, Some 2, Some 3, Some 9], movie_count = 3, movie_capacity = 4,
         popups = [], stderr = []\<rparr> 3
     = Inr \<lparr>heap = [1 \<mapsto> \<lparr>title = Some ''A'', director = Some ''X'', year = 2001, rating = 0\<rparr>,
                 2 \<mapsto> \<lparr>title = Some ''B'', director = Some ''Y'', year = 2002, rating = 0\<rparr>,
                 3 \<mapsto> \<lparr>title = Some ''C'', director = Some ''Z'', year = 2003, rating = 0\<rparr>],
         movies = Some [Some 1, Some 2, Some 3, Some 9], movie_count = 3, movie_capacity = 4,
         popups = [invalid_index_msg], stderr = []\<rparr>"
proof -
  let ?m = "\<lparr>title = Some ''A'', director = Some ''X'', year = 2001, rating = 0\<rparr>"
  let ?a = "[Some 1, Some 2, Some 3, Some (9::nat)]"
  let ?s = "\<lparr>heap = [1 \<mapsto> ?m,
                 2 \<mapsto> \<lparr>title = Some ''B'', director = Some ''Y'', year = 2002, rating = 0\<rparr>,
                 3 \<mapsto> \<lparr>title = Some ''C'', director = Some ''Z'', year = 2003, rating = 0\<rparr>],
         movies = Some ?a, movie_count = 3, movie_capacity = 4,
         popups = [], stderr = []\<rparr>"
  have wf: "movies ?s = Some ?a \<and> movie_count ?s = 3 \<and> 3 \<le> int (length ?a)"
    by simp
  have hit: "(0::int) \<le> 0 \<and> (0::int) < 3 \<and> ?a ! nat 0 = Some 1 \<and> heap ?s 1 = Some ?m \<and>
             ((121::int) = 121 \<or> (121::int) = 89)"
    by simp
  from delete_movie_spec [of ?s ?a 3 0 1 ?m 121] wf hit
  obtain s' a' where run: "delete_movie 121 ?s 0 = Inr s'"
    and h: "heap s' = (heap ?s)(1 := None)"
    and c: "movie_count s' = 3 - 1"
    and a': "movies s' = Some a'" "length a' = length ?a"
    and cells: "\<forall>j < length ?a.
              a' ! j = (if int j < 0 then ?a ! j
                        else if int j < 3 - 1 then ?a ! (j + 1)
                        else if int j = 3 - 1 then None
                        else ?a ! j)"
    by blast
  from cells have "a' ! 0 = Some 2" "a' ! 1 = Some 3" "a' ! 2 = None" "a' ! 3 = Some 9"
    by simp_all
  with run h c a' have first: "\<exists>s' a'. delete_movie 121 ?s 0 = Inr s' \<and>
      heap s' 1 = None \<and> heap s' 2 \<noteq> None \<and> heap s' 3 \<noteq> None \<and>
      movie_count s' = 2 \<and> movies s' = Some a' \<and> length a' = 4 \<and>
      a' ! 0 = Some 2 \<and> a' ! 1 = Some 3 \<and> a' ! 2 = None \<and> a' ! 3 = Some 9"
    by (intro exI [of _ s'] exI [of _ a']) simp
  have miss: "(3::int) < 0 \<or> (3::int) \<le> 3 \<or> ?a ! nat 3 = None"
    by simp
  from delete_movie_spec [of ?s ?a 3 3 _ _ 121] wf miss
  have "delete_movie 121 ?s 3 = Inr (?s\<lparr>popups := popups ?s @ [invalid_index_msg]\<rparr>)"
    by blast
  with first show ?thesis
    by simp
qed

section \<open>Insertion\<close>

text \<open>The scan stops at the first \<open>NULL\<close> cell at or after \<open>i\<close>, if there is one below the count.\<close>

lemma find_gap_found:
  "0 \<le> i \<Longrightarrow> i \<le> k \<Longrightarrow> k < cnt \<Longrightarrow> cnt \<le> int (length a) \<Longrightarrow> a ! nat k = None \<Longrightarrow>
   (\<forall>j. i \<le> j \<and> j < k \<longrightarrow> a ! nat j \<noteq> None) \<Longrightarrow> find_gap a cnt i = Inr k"
proof (induction a cnt i rule: find_gap.induct)
  case (1 a cnt i)
  from 1(2-5) have r: "rd a i = Inr (a ! nat i)"
    by (simp add: rd_in_range)
  show ?case
  proof (cases "i = k")
    case True
    with 1(2-6) r show ?thesis
      by (subst find_gap.simps) simp
  next
    case False
    with 1(3,7) obtain p where p: "a ! nat i = Some p"
      by (cases "a ! nat i") auto
    from False 1(3) have lt: "i < cnt" "i + 1 \<le> k" using 1(4) by linarith+
    from 1(7) have "\<forall>j. i + 1 \<le> j \<and> j < k \<longrightarrow> a ! nat j \<noteq> None"
      by simp
    with 1(1) [OF lt(1) _ p] r p 1(2,4,5,6) lt(2)
    have "find_gap a cnt (i + 1) = Inr k"
      by simp
    with lt(1) r p show ?thesis
      by (subst find_gap.simps) simp
  qed
qed

lemma find_gap_none:
  "0 \<le> i \<Longrightarrow> cnt \<le> int (length a) \<Longrightarrow>
   (\<forall>j. i \<le> j \<and> j < cnt \<longrightarrow> a ! nat j \<noteq> None) \<Longrightarrow> find_gap a cnt i = Inr (- 1)"
proof (induction a cnt i rule: find_gap.induct)
  case (1 a cnt i)
  show ?case
  proof (cases "i < cnt")
    case False
    then show ?thesis
      by (subst find_gap.simps) simp
  next
    case True
    with 1(2,3) have r: "rd a i = Inr (a ! nat i)"
      by (simp add: rd_in_range)
    from True 1(4) obtain p where p: "a ! nat i = Some p"
      by (cases "a ! nat i") auto
    from 1(4) have "\<forall>j. i + 1 \<le> j \<and> j < cnt \<longrightarrow> a ! nat j \<noteq> None"
      by simp
    with 1(1) [OF True _ p] r p 1(2,3) have "find_gap a cnt (i + 1) = Inr (- 1)"
      by simp
    with True r p show ?thesis
      by (subst find_gap.simps) simp
  qed
qed

lemma create_movie_success:
  "malloc_movie env = Some (p, junk) \<Longrightarrow> strdup_title env \<Longrightarrow> strdup_director env \<Longrightarrow> 1800 < y \<Longrightarrow>
   create_movie env h (Some t) (Some d) y =
     (h(p \<mapsto> junk\<lparr>title := Some t, director := Some d, year := y\<rparr>), Some p, [])"
  by (simp add: create_movie_def strdup_def)

text \<open>
  C2. Take an add whose record is created (the allocations succeed and the year passes
  the check), on an array of at least \<open>n = movie_count\<close> cells. If some cell below \<open>n\<close> is
  \<open>NULL\<close>, the new record's pointer goes into the lowest such cell \<open>k\<close> and the count stays
  \<open>n\<close>. If none is and the array has a cell \<open>n\<close>, the pointer goes into cell \<open>n\<close> and the
  count becomes \<open>n + 1\<close>. Nothing else in the array changes.
\<close>

theorem add_insert_spec:
  "movies s = Some a \<and> movie_count s = n \<and> 0 \<le> n \<and> n \<le> int (length a) \<and>
   malloc_movie env = Some (p, junk) \<and> strdup_title env \<and> strdup_director env \<and>
   1800 < typed_year inp \<and>
   h' = (heap s)(p \<mapsto> junk\<lparr>title := Some (typed_title inp), director := Some (typed_director inp),
                            year := typed_year inp\<rparr>) \<longrightarrow>
     (\<forall>k. 0 \<le> k \<and> k < n \<and> a ! nat k = None \<and> (\<forall>j. 0 \<le> j \<and> j < k \<longrightarrow> a ! nat j \<noteq> None) \<longrightarrow>
        add_insert env inp s = Inr (s\<lparr>heap := h', movies := Some (a[nat k := Some p])\<rparr>)) \<and>
     ((\<forall>j. 0 \<le> j \<and> j < n \<longrightarrow> a ! nat j \<noteq> None) \<and> n < int (length a) \<and> n < INT_MAX \<longrightarrow>
        add_insert env inp s =
          Inr (s\<lparr>heap := h', movies := Some (a[nat n := Some p]), movie_count := n + 1\<rparr>))"
proof (intro impI conjI allI)
  fix k
  assume pre: "movies s = Some a \<and> movie_count s = n \<and> 0 \<le> n \<and> n \<le> int (length a) \<and>
   malloc_movie env = Some (p, junk) \<and> strdup_title env \<and> strdup_director env \<and>
   1800 < typed_year inp \<and>
   h' = (heap s)(p \<mapsto> junk\<lparr>title := Some (typed_title inp), director := Some (typed_director inp),
                            year := typed_year inp\<rparr>)"
  assume gap: "0 \<le> k \<and> k < n \<and> a ! nat k = None \<and> (\<forall>j. 0 \<le> j \<and> j < k \<longrightarrow> a ! nat j \<noteq> None)"
  from pre gap have f: "find_gap a n 0 = Inr k"
    by (intro find_gap_found) auto
  from pre have c: "create_movie env (heap s) (Some (typed_title inp)) (Some (typed_director inp))
                      (typed_year inp) = (h', Some p, [])"
    by (simp add: create_movie_success)
  from pre gap have w: "wr a k (Some p) = Inr (a[nat k := Some p])"
    by (simp add: wr_in_range)
  from pre gap f c w show "add_insert env inp s = Inr (s\<lparr>heap := h', movies := Some (a[nat k := Some p])\<rparr>)"
    by (simp add: add_insert_def)
next
  assume pre: "movies s = Some a \<and> movie_count s = n \<and> 0 \<le> n \<and> n \<le> int (length a) \<and>
   malloc_movie env = Some (p, junk) \<and> strdup_title env \<and> strdup_director env \<and>
   1800 < typed_year inp \<and>
   h' = (heap s)(p \<mapsto> junk\<lparr>title := Some (typed_title inp), director := Some (typed_director inp),
                            year := typed_year inp\<rparr>)"
  assume full: "(\<forall>j. 0 \<le> j \<and> j < n \<longrightarrow> a ! nat j \<noteq> None) \<and> n < int (length a) \<and> n < INT_MAX"
  from pre full have f: "find_gap a n 0 = Inr (- 1)"
    by (intro find_gap_none) auto
  from pre have c: "create_movie env (heap s) (Some (typed_title inp)) (Some (typed_director inp))
                      (typed_year inp) = (h', Some p, [])"
    by (simp add: create_movie_success)
  from pre full have w: "wr a n (Some p) = Inr (a[nat n := Some p])"
    by (simp add: wr_in_range)
  from pre full f c w show "add_insert env inp s =
          Inr (s\<lparr>heap := h', movies := Some (a[nat n := Some p]), movie_count := n + 1\<rparr>)"
    by (simp add: add_insert_def)
qed

theorem add_insert_spec_witness:
  "add_insert
     \<lparr>malloc_movie = Some (7, \<lparr>title = None, director = None, year = 0, rating = 0\<rparr>),
      strdup_title = True, strdup_director = True\<rparr>
     \<lparr>typed_title = ''Tenet'', typed_director = ''Nolan'', typed_year = 2020\<rparr>
     \<lparr>heap = Map.empty, movies = Some [Some 1, None, Some 3, None], movie_count = 3,
      movie_capacity = 4, popups = [], stderr = []\<rparr>
   = Inr \<lparr>heap = [7 \<mapsto> \<lparr>title = Some ''Tenet'', director = Some ''Nolan'', year = 2020, rating = 0\<rparr>],
          movies = Some [Some 1, Some 7, Some 3, None], movie_count = 3,
          movie_capacity = 4, popups = [], stderr = []\<rparr> \<and>
   add_insert
     \<lparr>malloc_movie = Some (7, \<lparr>title = None, director = None, year = 0, rating = 0\<rparr>),
      strdup_title = True, strdup_director = True\<rparr>
     \<lparr>typed_title = ''Tenet'', typed_director = ''Nolan'', typed_year = 2020\<rparr>
     \<lparr>heap = Map.empty, movies = Some [Some 1, Some 2, None, None], movie_count = 2,
      movie_capacity = 4, popups = [], stderr = []\<rparr>
   = Inr \<lparr>heap = [7 \<mapsto> \<lparr>title = Some ''Tenet'', director = Some ''Nolan'', year = 2020, rating = 0\<rparr>],
          movies = Some [Some 1, Some 2, Some 7, None], movie_count = 3,
          movie_capacity = 4, popups = [], stderr = []\<rparr>"
proof -
  let ?junk = "\<lparr>title = None, director = None, year = 0, rating = 0\<rparr>"
  let ?env = "\<lparr>malloc_movie = Some (7, ?junk), strdup_title = True, strdup_director = True\<rparr>"
  let ?inp = "\<lparr>typed_title = ''Tenet'', typed_director = ''Nolan'', typed_year = 2020\<rparr>"
  let ?h' = "[7 \<mapsto> \<lparr>title = Some ''Tenet'', director = Some ''Nolan'', year = 2020, rating = 0\<rparr>]"
  let ?a = "[Some 1, None, Some 3, None :: slot]"
  let ?s = "\<lparr>heap = Map.empty, movies = Some ?a, movie_count = 3,
             movie_capacity = 4, popups = [], stderr = []\<rparr>"
  let ?b = "[Some 1, Some 2, None, None :: slot]"
  let ?t = "\<lparr>heap = Map.empty, movies = Some ?b, movie_count = 2,
             movie_capacity = 4, popups = [], stderr = []\<rparr>"
  have low: "a ! nat j \<noteq> None" if "0 \<le> j \<and> j < 1" "a = ?a" for j :: int and a
  proof -
    from that have "j = 0" by linarith
    with that show ?thesis by simp
  qed
  have gap: "(0::int) \<le> 1 \<and> (1::int) < 3 \<and> ?a ! nat 1 = None \<and>
             (\<forall>j. 0 \<le> j \<and> j < 1 \<longrightarrow> ?a ! nat j \<noteq> None)"
    using low by simp
  have pre1: "movies ?s = Some ?a \<and> movie_count ?s = 3 \<and> (0::int) \<le> 3 \<and> 3 \<le> int (length ?a) \<and>
     malloc_movie ?env = Some (7, ?junk) \<and> strdup_title ?env \<and> strdup_director ?env \<and>
     1800 < typed_year ?inp \<and>
     ?h' = (heap ?s)(7 \<mapsto> ?junk\<lparr>title := Some (typed_title ?inp),
                                  director := Some (typed_director ?inp), year := typed_year ?inp\<rparr>)"
    by simp
  from add_insert_spec [of ?s ?a 3 ?env 7 ?junk ?inp ?h'] pre1 gap
  have one: "add_insert ?env ?inp ?s = Inr (?s\<lparr>heap := ?h', movies := Some (?a[nat 1 := Some 7])\<rparr>)"
    by blast
  have occ: "?b ! nat j \<noteq> None" if "0 \<le> j \<and> j < 2" for j :: int
  proof -
    from that have "j = 0 \<or> j = 1" by linarith
    then show ?thesis by auto
  qed
  then have full: "(\<forall>j. 0 \<le> j \<and> j < 2 \<longrightarrow> ?b ! nat j \<noteq> None) \<and> 2 < int (length ?b) \<and> 2 < INT_MAX"
    by (simp add: INT_MAX_def)
  have pre2: "movies ?t = Some ?b \<and> movie_count ?t = 2 \<and> (0::int) \<le> 2 \<and> 2 \<le> int (length ?b) \<and>
     malloc_movie ?env = Some (7, ?junk) \<and> strdup_title ?env \<and> strdup_director ?env \<and>
     1800 < typed_year ?inp \<and>
     ?h' = (heap ?t)(7 \<mapsto> ?junk\<lparr>title := Some (typed_title ?inp),
                                  director := Some (typed_director ?inp), year := typed_year ?inp\<rparr>)"
    by simp
  from add_insert_spec [of ?t ?b 2 ?env 7 ?junk ?inp ?h'] pre2 full
  have two: "add_insert ?env ?inp ?t =
               Inr (?t\<lparr>heap := ?h', movies := Some (?b[nat 2 := Some 7]), movie_count := 2 + 1\<rparr>)"
    by blast
  from one two show ?thesis
    by simp
qed

section \<open>Growth under a sequence of adds\<close>

lemma add_grow_ok:
  assumes "storage_ok s" "answer \<noteq> None" "movie_capacity s \<le> INT_MAX"
    and "movie_count s = movie_capacity s \<longrightarrow> 2 * movie_capacity s \<le> INT_MAX"
  shows "\<exists>s1. add_grow answer s = Inr (True, s1) \<and> storage_ok s1 \<and>
              movie_count s1 = movie_count s \<and> movie_count s1 < movie_capacity s1 \<and>
              movie_capacity s1 \<le> INT_MAX"
proof (cases "movie_count s = movie_capacity s")
  case False
  with assms show ?thesis
    by (auto simp: add_grow_def storage_ok_def split: option.splits)
next
  case True
  from assms(1) obtain a where a: "movies s = Some a" "int (length a) = movie_capacity s"
    and pos: "0 < movie_capacity s"
    by (auto simp: storage_ok_def split: option.splits)
  from assms(2) obtain junk where junk: "answer = Some junk"
    by auto
  let ?c = "movie_capacity s * 2"
  let ?a1 = "take (nat ?c) a @ map junk [length a ..< nat ?c]"
  from pos True assms(4) have r: "resize_entries answer (movies s) (movie_capacity s) = Inr (Some ?a1, ?c)"
    by (simp add: resize_entries_def realloc_def junk a INT_MIN_def)
  from a pos have len: "int (length ?a1) = ?c"
    by simp
  let ?s1 = "s\<lparr>movies := Some ?a1, movie_capacity := ?c\<rparr>"
  from True r have "add_grow answer s = Inr (True, ?s1)"
    by (simp add: add_grow_def)
  moreover from len pos True assms(1) have "storage_ok ?s1"
    by (simp add: storage_ok_def a)
  moreover from True pos assms(4) have "movie_count ?s1 < movie_capacity ?s1" "movie_capacity ?s1 \<le> INT_MAX"
    by simp_all
  ultimately show ?thesis
    by (intro exI [of _ ?s1]) simp
qed

lemma find_gap_total:
  "0 \<le> i \<Longrightarrow> cnt \<le> int (length a) \<Longrightarrow>
   \<exists>k. find_gap a cnt i = Inr k \<and> (k = - 1 \<or> (i \<le> k \<and> k < cnt))"
proof (induction a cnt i rule: find_gap.induct)
  case (1 a cnt i)
  show ?case
  proof (cases "i < cnt")
    case False
    then show ?thesis
      by (subst find_gap.simps) simp
  next
    case True
    with 1(2,3) have r: "rd a i = Inr (a ! nat i)"
      by (simp add: rd_in_range)
    show ?thesis
    proof (cases "a ! nat i")
      case None
      with True r show ?thesis
        by (subst find_gap.simps) simp
    next
      case (Some p)
      from 1(1) [OF True _ Some] r Some 1(2,3)
      obtain k where "find_gap a cnt (i + 1) = Inr k" "k = - 1 \<or> (i + 1 \<le> k \<and> k < cnt)"
        by auto
      with True r Some show ?thesis
        by (subst find_gap.simps) auto
    qed
  qed
qed

lemma add_insert_ok:
  assumes "storage_ok s" "movie_count s < movie_capacity s" "movie_capacity s \<le> INT_MAX"
  shows "\<exists>s'. add_insert env inp s = Inr s' \<and> storage_ok s' \<and>
              movie_capacity s' = movie_capacity s \<and>
              movie_count s \<le> movie_count s' \<and> movie_count s' \<le> movie_count s + 1"
proof -
  from assms(1) obtain a where a: "movies s = Some a" "int (length a) = movie_capacity s"
    and cnt: "0 \<le> movie_count s"
    by (auto simp: storage_ok_def split: option.splits)
  from assms(2) a have le: "movie_count s \<le> int (length a)"
    by simp
  from find_gap_total [OF _ le, of 0]
  obtain k where k: "find_gap a (movie_count s) 0 = Inr k" "k = - 1 \<or> (0 \<le> k \<and> k < movie_count s)"
    by auto
  define idx where "idx = (if movie_count s \<le> 0 then - 1 else k)"
  have idx: "idx = - 1 \<or> (0 \<le> idx \<and> idx < movie_count s)"
    using k(2) by (auto simp: idx_def)
  obtain h mv ps where c: "create_movie env (heap s) (Some (typed_title inp))
                              (Some (typed_director inp)) (typed_year inp) = (h, mv, ps)"
    by (cases "create_movie env (heap s) (Some (typed_title inp)) (Some (typed_director inp)) (typed_year inp)")
  show ?thesis
  proof (cases mv)
    case None
    with a k c assms(1) show ?thesis
      by (auto simp: add_insert_def show_popup_def storage_ok_def)
  next
    case (Some p)
    show ?thesis
    proof (cases "idx = - 1")
      case True
      from cnt le assms(2) a have w: "wr a (movie_count s) (Some p) = Inr (a[nat (movie_count s) := Some p])"
        by (simp add: wr_in_range)
      from assms(2,3) have "movie_count s \<noteq> INT_MAX"
        by simp
      with True a k c Some w assms show ?thesis
        by (auto simp: add_insert_def storage_ok_def idx_def split: if_splits)
    next
      case False
      with idx le have w: "wr a idx (Some p) = Inr (a[nat idx := Some p])"
        by (simp add: wr_in_range)
      from False a k c Some w assms(1) show ?thesis
        by (auto simp: add_insert_def storage_ok_def idx_def split: if_splits)
    qed
  qed
qed

lemma menu_movie_add_ok:
  assumes "storage_ok s" "realloc_answer env \<noteq> None" "movie_capacity s \<le> INT_MAX"
    and "2 * (movie_count s + 1) \<le> INT_MAX"
  shows "\<exists>s'. menu_movie_add env inp s = Inr s' \<and> storage_ok s' \<and>
              movie_capacity s' \<le> INT_MAX \<and> movie_count s' \<le> movie_count s + 1"
proof -
  from assms(4) have "movie_count s = movie_capacity s \<longrightarrow> 2 * movie_capacity s \<le> INT_MAX"
    by auto
  from add_grow_ok [OF assms(1,2,3) this]
  obtain s1 where s1: "add_grow (realloc_answer env) s = Inr (True, s1)" "storage_ok s1"
    "movie_count s1 = movie_count s" "movie_count s1 < movie_capacity s1" "movie_capacity s1 \<le> INT_MAX"
    by blast
  from add_insert_ok [OF s1(2,4,5), of "allocs env" inp]
  obtain s' where "add_insert (allocs env) inp s1 = Inr s'" "storage_ok s'"
    "movie_capacity s' = movie_capacity s1" "movie_count s' \<le> movie_count s1 + 1"
    by blast
  with s1 show ?thesis
    by (intro exI [of _ s']) (simp add: menu_movie_add_def)
qed

lemma run_adds_ok:
  "storage_ok s \<Longrightarrow> \<forall>e\<in>set es. realloc_answer (fst e) \<noteq> None \<Longrightarrow> movie_capacity s \<le> INT_MAX \<Longrightarrow>
   2 * (movie_count s + int (length es)) \<le> INT_MAX \<Longrightarrow>
   \<exists>s'. run_adds es s = Inr s' \<and> storage_ok s'"
proof (induction es arbitrary: s)
  case Nil
  then show ?case by simp
next
  case (Cons e es)
  from Cons.prems(4) have "2 * (movie_count s + 1) \<le> INT_MAX"
    by simp
  from menu_movie_add_ok [OF Cons.prems(1) _ Cons.prems(3) this, of "fst e" "snd e"] Cons.prems(2)
  obtain s1 where s1: "menu_movie_add (fst e) (snd e) s = Inr s1" "storage_ok s1"
    "movie_capacity s1 \<le> INT_MAX" "movie_count s1 \<le> movie_count s + 1"
    by auto
  from Cons.prems(4) s1(4) have "2 * (movie_count s1 + int (length es)) \<le> INT_MAX"
    by simp
  from Cons.IH [OF s1(2) _ s1(3) this] Cons.prems(2)
  obtain s' where "run_adds es s1 = Inr s'" "storage_ok s'"
    by auto
  with s1(1) show ?case
    by simp
qed

text \<open>Whatever the allocator answers, a pass that does not fault keeps the count within the capacity.\<close>

lemma add_grow_bounds:
  assumes "0 \<le> movie_count s" "movie_count s \<le> movie_capacity s" "add_grow answer s = Inr (b, s1)"
  shows "movie_count s1 = movie_count s \<and> movie_count s1 \<le> movie_capacity s1 \<and>
         (b \<longrightarrow> movie_count s1 < movie_capacity s1)"
proof (cases "movie_count s = movie_capacity s")
  case False
  with assms show ?thesis
    by (auto simp: add_grow_def)
next
  case True
  with assms show ?thesis
    by (auto simp: add_grow_def resize_entries_def realloc_def show_popup_def
             split: if_splits option.splits)
qed

lemma add_insert_bounds:
  assumes "add_insert env inp s = Inr s'"
  shows "movie_capacity s' = movie_capacity s \<and> movie_count s \<le> movie_count s' \<and>
         movie_count s' \<le> movie_count s + 1"
  using assms
  by (auto simp: add_insert_def show_popup_def split: if_splits option.splits sum.splits prod.splits)

lemma menu_movie_add_bounds:
  assumes "0 \<le> movie_count s" "movie_count s \<le> movie_capacity s" "menu_movie_add env inp s = Inr s'"
  shows "0 \<le> movie_count s' \<and> movie_count s' \<le> movie_capacity s'"
proof -
  from assms(3) obtain b s1 where g: "add_grow (realloc_answer env) s = Inr (b, s1)"
    by (auto simp: menu_movie_add_def split: sum.splits)
  note gb = add_grow_bounds [OF assms(1,2) g]
  show ?thesis
  proof (cases b)
    case False
    with g assms(3) have "s' = s1"
      by (simp add: menu_movie_add_def)
    with gb assms(1) show ?thesis by simp
  next
    case True
    with g assms(3) have "add_insert (allocs env) inp s1 = Inr s'"
      by (simp add: menu_movie_add_def)
    from add_insert_bounds [OF this] gb True assms(1) show ?thesis
      by auto
  qed
qed

lemma run_adds_bounds:
  "0 \<le> movie_count s \<Longrightarrow> movie_count s \<le> movie_capacity s \<Longrightarrow> run_adds es s = Inr s' \<Longrightarrow>
   0 \<le> movie_count s' \<and> movie_count s' \<le> movie_capacity s'"
proof (induction es arbitrary: s)
  case Nil
  then show ?case by simp
next
  case (Cons e es)
  from Cons.prems(3) obtain s1 where s1: "menu_movie_add (fst e) (snd e) s = Inr s1" "run_adds es s1 = Inr s'"
    by (auto split: sum.splits)
  from menu_movie_add_bounds [OF Cons.prems(1,2) s1(1)] Cons.IH [OF _ _ s1(2)]
  show ?case by simp
qed

text \<open>A grow touches the capacity and the array only, and only when the array is full.\<close>

lemma add_grow_effect:
  assumes "storage_ok s" "movies s = Some a" "add_grow answer s = Inr (b, s1)"
  shows "heap s1 = heap s \<and> movie_count s1 = movie_count s \<and>
         movie_capacity s1 = (if movie_count s = movie_capacity s then 2 * movie_capacity s
                              else movie_capacity s) \<and>
         (movie_count s \<noteq> movie_capacity s \<longrightarrow> s1 = s) \<and>
         (\<exists>a1. movies s1 = Some a1 \<and> length a \<le> length a1 \<and> take (length a) a1 = a)"
proof (cases "movie_count s = movie_capacity s")
  case False
  with assms show ?thesis
    by (auto simp: add_grow_def)
next
  case True
  from assms(1,2) have len: "int (length a) = movie_capacity s"
    by (simp add: storage_ok_def)
  with True assms(2,3) show ?thesis
    by (auto simp: add_grow_def resize_entries_def realloc_def show_popup_def
             split: if_splits option.splits)
qed

text \<open>
  C9. From a well-formed catalog (in \<open>main\<close>: capacity 10, count 0), every sequence of
  adds whose reallocations succeed runs without fault and ends well-formed, with
  \<open>count \<le> capacity\<close> and a block of exactly \<open>capacity\<close> cells, as long as the counts
  stay representable. Whatever the allocator answers, a sequence that runs to its end
  keeps \<open>0 \<le> count \<le> capacity\<close>. The array is grown exactly when the count equals the
  capacity, the capacity then doubles, and a grow changes neither the heap (the fields of
  every record) nor the pointers already in the array (their identity and order).
\<close>

theorem add_sequence_keeps_count_within_capacity:
  "(storage_ok s \<and> (\<forall>e\<in>set es. realloc_answer (fst e) \<noteq> None) \<and> movie_capacity s \<le> INT_MAX \<and>
    2 * (movie_count s + int (length es)) \<le> INT_MAX \<longrightarrow>
      (\<exists>s'. run_adds es s = Inr s' \<and> storage_ok s' \<and> movie_count s' \<le> movie_capacity s')) \<and>
   (0 \<le> movie_count s \<and> movie_count s \<le> movie_capacity s \<and> run_adds es s = Inr t \<longrightarrow>
      0 \<le> movie_count t \<and> movie_count t \<le> movie_capacity t) \<and>
   (storage_ok s \<and> movies s = Some a \<and> add_grow answer s = Inr (b, s1) \<longrightarrow>
      heap s1 = heap s \<and> movie_count s1 = movie_count s \<and>
      movie_capacity s1 = (if movie_count s = movie_capacity s then 2 * movie_capacity s
                           else movie_capacity s) \<and>
      (movie_count s \<noteq> movie_capacity s \<longrightarrow> s1 = s) \<and>
      (\<exists>a1. movies s1 = Some a1 \<and> length a \<le> length a1 \<and> take (length a) a1 = a))"
proof (intro conjI impI)
  assume "storage_ok s \<and> (\<forall>e\<in>set es. realloc_answer (fst e) \<noteq> None) \<and> movie_capacity s \<le> INT_MAX \<and>
    2 * (movie_count s + int (length es)) \<le> INT_MAX"
  with run_adds_ok [of s es] obtain s' where s': "run_adds es s = Inr s'" "storage_ok s'"
    by blast
  then have "movie_count s' \<le> movie_capacity s'"
    by (auto simp: storage_ok_def split: option.splits)
  with s' show "\<exists>s'. run_adds es s = Inr s' \<and> storage_ok s' \<and> movie_count s' \<le> movie_capacity s'"
    by blast
next
  assume "0 \<le> movie_count s \<and> movie_count s \<le> movie_capacity s \<and> run_adds es s = Inr t"
  with run_adds_bounds [of s es t]
  show "0 \<le> movie_count t" "movie_count t \<le> movie_capacity t"
    by blast+
next
  assume g: "storage_ok s \<and> movies s = Some a \<and> add_grow answer s = Inr (b, s1)"
  with add_grow_effect [of s a answer b s1]
  show "heap s1 = heap s" "movie_count s1 = movie_count s"
    "movie_capacity s1 = (if movie_count s = movie_capacity s then 2 * movie_capacity s
                           else movie_capacity s)"
    "\<exists>a1. movies s1 = Some a1 \<and> length a \<le> length a1 \<and> take (length a) a1 = a"
    by blast+
  assume "movie_count s \<noteq> movie_capacity s"
  with g add_grow_effect [of s a answer b s1] show "s1 = s"
    by blast
qed


theorem add_sequence_keeps_count_within_capacity_witness:
  "(\<exists>t. run_adds
          [(\<lparr>realloc_answer = Some (\<lambda>i. None),
             allocs = \<lparr>malloc_movie = Some (1, \<lparr>title = None, director = None, year = 0, rating = 0\<rparr>),
                       strdup_title = True, strdup_director = True\<rparr>\<rparr>,
            \<lparr>typed_title = ''A'', typed_director = ''X'', typed_year = 2001\<rparr>),
           (\<lparr>realloc_answer = Some (\<lambda>i. None),
             allocs = \<lparr>malloc_movie = Some (2, \<lparr>title = None, director = None, year = 0, rating = 0\<rparr>),
                       strdup_title = True, strdup_director = True\<rparr>\<rparr>,
            \<lparr>typed_title = ''B'', typed_director = ''Y'', typed_year = 2002\<rparr>)]
          \<lparr>heap = Map.empty, movies = Some [None], movie_count = 0, movie_capacity = 1,
           popups = [], stderr = []\<rparr> = Inr t \<and>
        storage_ok t \<and> 0 \<le> movie_count t \<and> movie_count t \<le> movie_capacity t \<and>
        movie_count t = 2 \<and> movie_capacity t = 2 \<and> movies t = Some [Some 1, Some 2]) \<and>
   (\<exists>s1. add_grow (Some (\<lambda>i. None))
          \<lparr>heap = [1 \<mapsto> \<lparr>title = Some ''A'', director = Some ''X'', year = 2001, rating = 0\<rparr>],
           movies = Some [Some 1], movie_count = 1, movie_capacity = 1,
           popups = [], stderr = []\<rparr> = Inr (True, s1) \<and>
        heap s1 = [1 \<mapsto> \<lparr>title = Some ''A'', director = Some ''X'', year = 2001, rating = 0\<rparr>] \<and>
        movie_count s1 = 1 \<and> movie_capacity s1 = 2 \<and>
        (\<exists>a1. movies s1 = Some a1 \<and> 1 \<le> length a1 \<and> take 1 a1 = [Some 1]))"
proof -
  let ?junk = "\<lparr>title = None, director = None, year = 0, rating = 0\<rparr>"
  let ?es = "[(\<lparr>realloc_answer = Some (\<lambda>i. None),
             allocs = \<lparr>malloc_movie = Some (1, ?junk), strdup_title = True, strdup_director = True\<rparr>\<rparr>,
            \<lparr>typed_title = ''A'', typed_director = ''X'', typed_year = 2001\<rparr>),
           (\<lparr>realloc_answer = Some (\<lambda>i. None),
             allocs = \<lparr>malloc_movie = Some (2, ?junk), strdup_title = True, strdup_director = True\<rparr>\<rparr>,
            \<lparr>typed_title = ''B'', typed_director = ''Y'', typed_year = 2002\<rparr>)]"
  let ?s = "\<lparr>heap = Map.empty, movies = Some [None], movie_count = 0, movie_capacity = 1,
             popups = [], stderr = []\<rparr>"
  let ?h1 = "[1 \<mapsto> \<lparr>title = Some ''A'', director = Some ''X'', year = 2001, rating = 0\<rparr>]"
  let ?f = "\<lparr>heap = ?h1, movies = Some [Some 1], movie_count = 1, movie_capacity = 1,
             popups = [], stderr = []\<rparr>"
  have pre: "storage_ok ?s \<and> (\<forall>e\<in>set ?es. realloc_answer (fst e) \<noteq> None) \<and>
             movie_capacity ?s \<le> INT_MAX \<and> 2 * (movie_count ?s + int (length ?es)) \<le> INT_MAX"
    by (simp add: storage_ok_def INT_MAX_def)
  from add_sequence_keeps_count_within_capacity [of ?s ?es] pre
  obtain t where t: "run_adds ?es ?s = Inr t" "storage_ok t"
    by blast
  have "case run_adds ?es ?s of Inl f \<Rightarrow> False
        | Inr t \<Rightarrow> movie_count t = 2 \<and> movie_capacity t = 2 \<and> movies t = Some [Some 1, Some 2]"
    by code_simp
  with t(1) have vals: "movie_count t = 2" "movie_capacity t = 2" "movies t = Some [Some 1, Some 2]"
    by simp_all
  have "0 \<le> movie_count ?s \<and> movie_count ?s \<le> movie_capacity ?s \<and> run_adds ?es ?s = Inr t"
    using t(1) by simp
  with add_sequence_keeps_count_within_capacity [of ?s ?es t]
  have bounds: "0 \<le> movie_count t \<and> movie_count t \<le> movie_capacity t"
    by blast
  from t vals bounds have first: "\<exists>t. run_adds ?es ?s = Inr t \<and>
        storage_ok t \<and> 0 \<le> movie_count t \<and> movie_count t \<le> movie_capacity t \<and>
        movie_count t = 2 \<and> movie_capacity t = 2 \<and> movies t = Some [Some 1, Some 2]"
    by blast
  have g: "add_grow (Some (\<lambda>i. None)) ?f
             = Inr (True, ?f\<lparr>movies := Some [Some 1, None], movie_capacity := 2\<rparr>)"
    by (simp add: add_grow_def resize_entries_def realloc_def INT_MAX_def INT_MIN_def upt_rec)
  let ?g = "?f\<lparr>movies := Some [Some 1, None], movie_capacity := 2\<rparr>"
  have "storage_ok ?f \<and> movies ?f = Some [Some 1] \<and> add_grow (Some (\<lambda>i. None)) ?f = Inr (True, ?g)"
    using g by (simp add: storage_ok_def)
  with add_sequence_keeps_count_within_capacity [of ?f _ _ "[Some 1]" "Some (\<lambda>i. None)" True ?g]
  have "heap ?g = heap ?f \<and> movie_count ?g = movie_count ?f \<and>
      movie_capacity ?g = (if movie_count ?f = movie_capacity ?f then 2 * movie_capacity ?f
                           else movie_capacity ?f) \<and>
      (\<exists>a1. movies ?g = Some a1 \<and> length [Some (1::nat)] \<le> length a1 \<and> take (length [Some (1::nat)]) a1 = [Some 1])"
    by blast
  with g have second: "\<exists>s1. add_grow (Some (\<lambda>i. None)) ?f = Inr (True, s1) \<and>
        heap s1 = ?h1 \<and> movie_count s1 = 1 \<and> movie_capacity s1 = 2 \<and>
        (\<exists>a1. movies s1 = Some a1 \<and> 1 \<le> length a1 \<and> take 1 a1 = [Some 1])"
    by (intro exI [of _ ?g]) simp
  from first second show ?thesis
    by blast
qed

section \<open>Saving\<close>

lemma fprintf_movie_spec_line:
  "title m \<noteq> None \<Longrightarrow> director m \<noteq> None \<Longrightarrow> fprintf_movie m = Inr (spec_line m)"
  by (auto simp: fprintf_movie_def spec_line_def)

lemma save_loop_spec:
  "0 \<le> i \<Longrightarrow> i \<le> n \<Longrightarrow> n \<le> int (length a) \<Longrightarrow> slots_live h a n \<Longrightarrow>
   save_loop h (Some a) n i out =
     Inr (out @ concat (map (\<lambda>p. spec_line (the (h p))) [p. Some p \<leftarrow> drop (nat i) (take (nat n) a)]))"
proof (induction h "Some a" n i out rule: save_loop.induct)
  case (1 h n i out)
  show ?case
  proof (cases "i < n")
    case False
    with 1(4) have "drop (nat i) (take (nat n) a) = []"
      by simp
    with False show ?thesis
      by (subst save_loop.simps) simp
  next
    case True
    with 1(3,5) have r: "rd a i = Inr (a ! nat i)"
      by (simp add: rd_in_range)
    from True 1(3,5) have idx: "nat i < length (take (nat n) a)"
      by simp
    then have cell: "take (nat n) a ! nat i = a ! nat i"
      by simp
    from 1(3) have suc: "nat (i + 1) = Suc (nat i)"
      by simp
    have split: "drop (nat i) (take (nat n) a) = a ! nat i # drop (nat (i + 1)) (take (nat n) a)"
      using Cons_nth_drop_Suc [OF idx] cell suc by simp
    show ?thesis
    proof (cases "a ! nat i")
      case None
      from 1(1) [OF True refl r None] 1(3-6) True
      have "save_loop h (Some a) n (i + 1) out =
              Inr (out @ concat (map (\<lambda>p. spec_line (the (h p)))
                                   [p. Some p \<leftarrow> drop (nat (i + 1)) (take (nat n) a)]))"
        by simp
      with True r None split show ?thesis
        by (subst save_loop.simps) simp
    next
      case (Some p)
      from idx cell Some have "Some p \<in> set (take (nat n) a)"
        by (metis nth_mem)
      with 1(6) obtain m where m: "h p = Some m" "title m \<noteq> None" "director m \<noteq> None"
        by (auto simp: slots_live_def split: option.splits)
      then have f: "fprintf_movie m = Inr (spec_line m)"
        by (simp add: fprintf_movie_spec_line)
      from 1(2) [OF True refl r Some m(1) f] 1(3-6) True
      have "save_loop h (Some a) n (i + 1) (out @ spec_line m) =
              Inr ((out @ spec_line m) @ concat (map (\<lambda>p. spec_line (the (h p)))
                                   [p. Some p \<leftarrow> drop (nat (i + 1)) (take (nat n) a)]))"
        by simp
      with True r Some m(1) f split show ?thesis
        by (subst save_loop.simps) simp
    qed
  qed
qed

lemma one_decimal_printf_1f:
  assumes "float_finite w"
  shows "one_decimal (printf_1f w)"
proof -
  let ?q = "printf_u (float_tenths w div 10)"
  let ?b = "?q @ [CHR ''.'', digit_char (float_tenths w mod 10)]"
  obtain c cs where q: "?q = c # cs"
    using printf_u_nonempty [of "float_tenths w div 10"] by (cases ?q) auto
  with printf_u_digits [of "float_tenths w div 10"] have "isdigit c"
    by simp
  then have c: "c \<noteq> CHR ''-''"
    by (simp add: isdigit_not_space_sign)
  have body: "3 \<le> length ?b \<and> (\<forall>c\<in>set (butlast (butlast ?b)). isdigit c) \<and>
              last (butlast ?b) = CHR ''.'' \<and> isdigit (last ?b)"
    using printf_u_digits [of "float_tenths w div 10"] q
    by (simp add: butlast_append isdigit_digit_char)
  show ?thesis
  proof (cases "float_sign w")
    case True
    with assms have "printf_1f w = CHR ''-'' # ?b"
      by (simp add: printf_1f_def float_finite_def)
    with body show ?thesis
      by (simp add: one_decimal_def)
  next
    case False
    with assms have p: "printf_1f w = c # (cs @ [CHR ''.'', digit_char (float_tenths w mod 10)])"
      by (simp add: printf_1f_def float_finite_def q)
    from body q c show ?thesis
      unfolding p one_decimal_def by simp
  qed
qed

text \<open>
  C7. When the file can be opened and every occupied slot below the count holds a live
  record with both strings present and its fields in their domains,
  \<open>save_movies_to_file\<close> replaces whatever the file held by exactly one line per occupied
  slot, in slot order, empty slots skipped. Each line is \<open>title|director|year|rating\<close>
  and a newline, the year in decimal (\<open>atoi\<close> reads it back), the rating with exactly one
  digit after the decimal point.
\<close>

theorem save_movies_to_file_spec:
  "0 \<le> n \<and> n \<le> int (length a) \<and> slots_live h a n \<and> fields_in_domain h a n \<longrightarrow>
     save_movies_to_file True old h (Some a) n = Inr (Some (spec_saved_file h a n), []) \<and>
     (\<forall>sl\<in>set (take (nat n) a). \<forall>p. sl = Some p \<longrightarrow>
        (\<exists>m t d. h p = Some m \<and> title m = Some t \<and> director m = Some d \<and>
           spec_line m = t @ ''|'' @ d @ ''|'' @ printf_d (year m) @ ''|'' @ printf_1f (rating m) @ ''\<newline>'' \<and>
           atoi (printf_d (year m)) = Inr (year m) \<and>
           one_decimal (printf_1f (rating m))))"
proof (intro impI conjI ballI allI)
  assume pre: "0 \<le> n \<and> n \<le> int (length a) \<and> slots_live h a n \<and> fields_in_domain h a n"
  with save_loop_spec [of 0 n a h "[]"] show "save_movies_to_file True old h (Some a) n
            = Inr (Some (spec_saved_file h a n), [])"
    by (simp add: save_movies_to_file_def spec_saved_file_def)
  fix sl p
  assume sl: "sl \<in> set (take (nat n) a)" "sl = Some p"
  with pre obtain m t d where m: "h p = Some m" "title m = Some t" "director m = Some d"
    by (fastforce simp: slots_live_def split: option.splits)
  from pre sl m(1) have dom: "INT_MIN \<le> year m" "year m \<le> INT_MAX" "float_finite (rating m)"
    by (fastforce simp: fields_in_domain_def split: option.splits)+
  from m dom show "\<exists>m t d. h p = Some m \<and> title m = Some t \<and> director m = Some d \<and>
           spec_line m = t @ ''|'' @ d @ ''|'' @ printf_d (year m) @ ''|'' @ printf_1f (rating m) @ ''\<newline>'' \<and>
           atoi (printf_d (year m)) = Inr (year m) \<and>
           one_decimal (printf_1f (rating m))"
    by (auto simp: spec_line_def atoi_printf_d one_decimal_printf_1f)
qed

theorem save_movies_to_file_spec_witness:
  "save_movies_to_file True (Some ''old contents'')
     [1 \<mapsto> \<lparr>title = Some ''Inception'', director = Some ''Nolan'', year = 2010, rating = 0x40A00000\<rparr>,
      2 \<mapsto> \<lparr>title = Some ''Alien'', director = Some ''Scott'', year = 1979, rating = 0\<rparr>]
     (Some [Some 1, None, Some 2, Some 9]) 3
   = Inr (Some ''Inception|Nolan|2010|5.0\<newline>Alien|Scott|1979|0.0\<newline>'', []) \<and>
   atoi (printf_d 2010) = Inr 2010 \<and> one_decimal (printf_1f 0x40A00000)"
proof -
  let ?m1 = "\<lparr>title = Some ''Inception'', director = Some ''Nolan'', year = 2010, rating = 0x40A00000\<rparr>"
  let ?m2 = "\<lparr>title = Some ''Alien'', director = Some ''Scott'', year = 1979, rating = 0\<rparr>"
  let ?h = "[1 \<mapsto> ?m1, 2 \<mapsto> ?m2] :: heap"
  let ?a = "[Some 1, None, Some 2, Some (9::nat)]"
  have three: "nat 3 = Suc (Suc (Suc 0))"
    by simp
  have fin: "float_finite 0x40A00000" "float_finite 0"
    by code_simp+
  have pre: "(0::int) \<le> 3 \<and> 3 \<le> int (length ?a) \<and> slots_live ?h ?a 3 \<and> fields_in_domain ?h ?a 3"
    unfolding slots_live_def fields_in_domain_def three using fin
    by (simp add: INT_MIN_def INT_MAX_def)
  have contents: "spec_saved_file ?h ?a 3 = ''Inception|Nolan|2010|5.0\<newline>Alien|Scott|1979|0.0\<newline>''"
    by code_simp
  have mem: "Some 1 \<in> set (take (nat 3) ?a)"
    unfolding three by simp
  note spec = save_movies_to_file_spec [of 3 ?a ?h "Some ''old contents''", THEN mp, OF pre]
  note run = spec [THEN conjunct1]
  from spec [THEN conjunct2, rule_format, OF mem refl]
  obtain m where m: "?h 1 = Some m"
    and y: "atoi (printf_d (year m)) = Inr (year m)"
    and r: "one_decimal (printf_1f (rating m))"
    by blast
  from m have m1: "m = ?m1"
    by simp
  from y r have "atoi (printf_d 2010) = Inr 2010 \<and> one_decimal (printf_1f 0x40A00000)"
    unfolding m1 by simp
  with run contents show ?thesis
    by simp
qed

section \<open>Loading\<close>


























end
